theory Spec2Isabelle
  imports Main "HOL-Library.Word" "HOL-Library.Monad_Syntax"
begin

unbundle bit_operations_syntax

section \<open>Framing codec: little-endian integers (utils.js)\<close>

type_synonym u8 = "8 word"

text \<open>
  JavaScript numbers that hold integers are modelled as \<open>int\<close>. The bitwise operators
  first convert their operands with ToInt32, that is modulo \<open>2^32\<close>, which is
  \<open>word_of_int\<close> into \<open>32 word\<close>; \<open>>>\<close> is the sign-propagating shift with the
  count taken modulo 32, and a store into a \<open>Uint8Array\<close> keeps the low eight bits.
\<close>

definition numberToLE :: "int \<Rightarrow> nat \<Rightarrow> u8 list" where
  "numberToLE num bytes =
     map (\<lambda>i. ucast (signed_drop_bit ((i * 8) mod 32) (word_of_int num :: 32 word) AND 0xFF))
       [0..<bytes]"

text \<open>
  An index beyond the end of a typed array reads \<open>undefined\<close>, which ToInt32 turns
  into 0. \<open><<\<close> takes its count modulo 32; \<open>>>> 0\<close> reads the accumulated 32-bit
  pattern as an unsigned number.
\<close>

definition byte_at :: "u8 list \<Rightarrow> nat \<Rightarrow> 32 word" where
  "byte_at arr i = (if i < length arr then ucast (arr ! i) else 0)"

definition LEToNumber :: "u8 list \<Rightarrow> nat \<Rightarrow> nat \<Rightarrow> int" where
  "LEToNumber arr offset bytes =
     uint (fold (\<lambda>i num. num OR push_bit ((i * 8) mod 32) (byte_at arr (offset + i)))
             [0..<bytes] (0 :: 32 word))"


section \<open>Strings and typed arrays\<close>

text \<open>
  A JavaScript string is a sequence of UTF-16 code units. Every string this program
  builds from bytes (\<open>String.fromCharCode(byte)\<close>) has code units below 256, so strings
  are modelled as \<open>string\<close>, one \<open>char\<close> per code unit. \<open>TextEncoder.encode\<close> is
  UTF-8: one byte for a code unit below 128, two bytes for one in 128..255.
\<close>

definition fromCharCode :: "u8 \<Rightarrow> char" where
  "fromCharCode b = char_of (unat b)"

definition encode_unit :: "char \<Rightarrow> u8 list" where
  "encode_unit c =
     (let n = (of_char c :: nat)
      in if n < 128 then [of_nat n] else [of_nat (192 + n div 64), of_nat (128 + n mod 64)])"

definition TextEncoder_encode :: "string \<Rightarrow> u8 list" where
  "TextEncoder_encode str = concat (map encode_unit str)"

text \<open>
  \<open>readString\<close>: the loop stops at the first zero byte. A read beyond the end of the
  array gives \<open>undefined\<close>, which is not \<open>=== 0\<close> and which \<open>String.fromCharCode\<close>
  turns into the code unit 0.
\<close>

fun readString_loop :: "u8 list \<Rightarrow> nat \<Rightarrow> nat \<Rightarrow> string" where
  "readString_loop buffer pos 0 = []"
| "readString_loop buffer pos (Suc n) =
     (if pos < length buffer then
        (if buffer ! pos = 0 then []
         else fromCharCode (buffer ! pos) # readString_loop buffer (Suc pos) n)
      else char_of (0 :: nat) # readString_loop buffer (Suc pos) n)"

definition readString :: "u8 list \<Rightarrow> nat \<Rightarrow> nat \<Rightarrow> string" where
  "readString buffer offset maxLength = readString_loop buffer offset maxLength"

text \<open>
  \<open>TypedArray.prototype.set(source, offset)\<close> copies \<open>source\<close> into the array at
  \<open>offset\<close> and throws a RangeError (\<open>None\<close>) when it does not fit. An indexed store
  \<open>buffer[i] = v\<close> beyond the end is ignored, which is what \<open>buffer[i := v]\<close> does.
\<close>

definition u8_set :: "u8 list \<Rightarrow> u8 list \<Rightarrow> nat \<Rightarrow> u8 list option" where
  "u8_set buffer source offset =
     (if offset + length source \<le> length buffer
      then Some (take offset buffer @ source @ drop (offset + length source) buffer)
      else None)"

section \<open>PIT codec (pit-parser.js)\<close>

record PitEntry =
  binaryType :: int
  deviceType :: int
  partitionId :: int
  partitionType :: int
  filesystem :: int
  startBlock :: int
  numBlocks :: int
  fileOffset :: int
  fileSize :: int
  partitionName :: string
  flashFilename :: string
  fotaFilename :: string

record PitData =
  magic :: int
  count :: int
  entries :: "PitEntry list"

definition PIT_MAGIC :: int where "PIT_MAGIC = 0x12349876"
definition PIT_HEADER_SIZE :: nat where "PIT_HEADER_SIZE = 28"
definition PIT_ENTRY_SIZE :: nat where "PIT_ENTRY_SIZE = 132"

datatype pit_error = PitTooSmall | InvalidPitMagic int

definition parseEntry :: "u8 list \<Rightarrow> nat \<Rightarrow> PitEntry" where
  "parseEntry data offset =
     \<lparr> binaryType = LEToNumber data (offset + 0) 4,
       deviceType = LEToNumber data (offset + 4) 4,
       partitionId = LEToNumber data (offset + 8) 4,
       partitionType = LEToNumber data (offset + 12) 4,
       filesystem = LEToNumber data (offset + 16) 4,
       startBlock = LEToNumber data (offset + 20) 4,
       numBlocks = LEToNumber data (offset + 24) 4,
       fileOffset = LEToNumber data (offset + 28) 4,
       fileSize = LEToNumber data (offset + 32) 4,
       partitionName = readString data (offset + 36) 32,
       flashFilename = readString data (offset + 68) 32,
       fotaFilename = readString data (offset + 100) 32 \<rparr>"

text \<open>
  The entry loop of \<open>parse\<close>: \<open>for (let i = 0; i < count; i++)\<close>, left by \<open>break\<close>
  (with a warning in the log) as soon as the next entry would run past the data.
\<close>

function parse_entries :: "u8 list \<Rightarrow> int \<Rightarrow> int \<Rightarrow> nat \<Rightarrow> PitEntry list \<Rightarrow> PitEntry list" where
  "parse_entries pitData cnt i offset acc =
     (if i < cnt then
        (if offset + PIT_ENTRY_SIZE > length pitData then acc
         else parse_entries pitData cnt (i + 1) (offset + PIT_ENTRY_SIZE)
                (acc @ [parseEntry pitData offset]))
      else acc)"
  by pat_completeness auto
termination
  by (relation "measure (\<lambda>(pitData, cnt, i, offset, acc). nat (cnt - i))") auto

declare parse_entries.simps [simp del]

definition parse :: "u8 list \<Rightarrow> pit_error + PitData" where
  "parse pitData =
     (if length pitData < PIT_HEADER_SIZE then Inl PitTooSmall
      else let magic = LEToNumber pitData 0 4;
               cnt = LEToNumber pitData 4 4
           in if magic \<noteq> PIT_MAGIC then Inl (InvalidPitMagic magic)
              else Inr \<lparr> magic = magic, count = cnt,
                         entries = parse_entries pitData cnt 0 PIT_HEADER_SIZE [] \<rparr>)"

definition writeString :: "u8 list \<Rightarrow> nat \<Rightarrow> string \<Rightarrow> nat \<Rightarrow> u8 list option" where
  "writeString buffer offset str maxLength =
     (let bytes = TextEncoder_encode str;
          len = min (length bytes) (maxLength - 1)
      in do {
           buffer \<leftarrow> u8_set buffer (take len bytes) offset;
           Some (buffer[offset + len := 0])
         })"

definition serializeEntry :: "PitEntry \<Rightarrow> u8 list \<Rightarrow> nat \<Rightarrow> u8 list option" where
  "serializeEntry entry buffer offset =
     do {
       buffer \<leftarrow> u8_set buffer (numberToLE (binaryType entry) 4) (offset + 0);
       buffer \<leftarrow> u8_set buffer (numberToLE (deviceType entry) 4) (offset + 4);
       buffer \<leftarrow> u8_set buffer (numberToLE (partitionId entry) 4) (offset + 8);
       buffer \<leftarrow> u8_set buffer (numberToLE (partitionType entry) 4) (offset + 12);
       buffer \<leftarrow> u8_set buffer (numberToLE (filesystem entry) 4) (offset + 16);
       buffer \<leftarrow> u8_set buffer (numberToLE (startBlock entry) 4) (offset + 20);
       buffer \<leftarrow> u8_set buffer (numberToLE (numBlocks entry) 4) (offset + 24);
       buffer \<leftarrow> u8_set buffer (numberToLE (fileOffset entry) 4) (offset + 28);
       buffer \<leftarrow> u8_set buffer (numberToLE (fileSize entry) 4) (offset + 32);
       buffer \<leftarrow> writeString buffer (offset + 36) (partitionName entry) 32;
       buffer \<leftarrow> writeString buffer (offset + 68) (flashFilename entry) 32;
       writeString buffer (offset + 100) (fotaFilename entry) 32
     }"

text \<open>The loop \<open>for (const entry of pitData.entries)\<close> of \<open>serialize\<close>.\<close>

fun serialize_entries :: "PitEntry list \<Rightarrow> u8 list \<Rightarrow> nat \<Rightarrow> u8 list option" where
  "serialize_entries [] buffer offset = Some buffer"
| "serialize_entries (entry # rest) buffer offset =
     do {
       buffer \<leftarrow> serializeEntry entry buffer offset;
       serialize_entries rest buffer (offset + PIT_ENTRY_SIZE)
     }"

definition serialize :: "PitData \<Rightarrow> u8 list option" where
  "serialize pitData =
     (let totalSize = PIT_HEADER_SIZE + length (entries pitData) * PIT_ENTRY_SIZE;
          buffer = replicate totalSize (0 :: u8)
      in do {
           buffer \<leftarrow> u8_set buffer (numberToLE (magic pitData) 4) 0;
           buffer \<leftarrow> u8_set buffer (numberToLE (count pitData) 4) 4;
           serialize_entries (entries pitData) buffer PIT_HEADER_SIZE
         })"

text \<open>
  A well-formed PIT: the magic, a count that is the number of entries, every integer
  field an unsigned 32-bit value, and every string at most 31 ASCII characters. The
  strings live in null-terminated fields, so the characters are the codes 1..127.
\<close>

definition is_u32 :: "int \<Rightarrow> bool" where
  "is_u32 v \<longleftrightarrow> 0 \<le> v \<and> v < 2 ^ 32"

definition ascii_string :: "string \<Rightarrow> bool" where
  "ascii_string str \<longleftrightarrow> list_all (\<lambda>c. 0 < (of_char c :: nat) \<and> (of_char c :: nat) < 128) str"

definition wf_string :: "string \<Rightarrow> bool" where
  "wf_string str \<longleftrightarrow> length str \<le> 31 \<and> ascii_string str"

definition wf_entry :: "PitEntry \<Rightarrow> bool" where
  "wf_entry e \<longleftrightarrow>
     is_u32 (binaryType e) \<and> is_u32 (deviceType e) \<and> is_u32 (partitionId e) \<and>
     is_u32 (partitionType e) \<and> is_u32 (filesystem e) \<and> is_u32 (startBlock e) \<and>
     is_u32 (numBlocks e) \<and> is_u32 (fileOffset e) \<and> is_u32 (fileSize e) \<and>
     wf_string (partitionName e) \<and> wf_string (flashFilename e) \<and> wf_string (fotaFilename e)"

definition wf_pit :: "PitData \<Rightarrow> bool" where
  "wf_pit p \<longleftrightarrow>
     magic p = PIT_MAGIC \<and> count p = int (length (entries p)) \<and> is_u32 (count p) \<and>
     list_all wf_entry (entries p)"

text \<open>
  A frame condition for the proofs: \<open>b'\<close> has the length of \<open>b\<close> and differs from it
  at most at the indices \<open>lo \<le> i < hi\<close>.
\<close>

definition same_outside :: "u8 list \<Rightarrow> u8 list \<Rightarrow> nat \<Rightarrow> nat \<Rightarrow> bool" where
  "same_outside b b' lo hi \<longleftrightarrow>
     length b' = length b \<and> (\<forall>i < length b. i < lo \<or> hi \<le> i \<longrightarrow> b' ! i = b ! i)"

text \<open>The two-entry table of the round-trip scenario: BOOTLOADER and BOOT.\<close>

definition example_entry :: PitEntry where "example_entry = \<lparr> binaryType = 0, deviceType = 2, partitionId = 80, partitionType = 0, filesystem = 0, startBlock = 0, numBlocks = 100, fileOffset = 0, fileSize = 0, partitionName = ''BOOTLOADER'', flashFilename = ''sboot.bin'', fotaFilename = ''''\<rparr>"

definition example_pit :: PitData where "example_pit = \<lparr> magic = PIT_MAGIC, count = 2, entries = [example_entry, example_entry\<lparr>partitionName := ''BOOT'', flashFilename := ''boot.img'', partitionId := 3\<rparr>] \<rparr>"

section \<open>Struct packing (utils.js)\<close>

text \<open>
  \<open>structPack(format, ...values)\<close>: a leading \<open><\<close> or \<open>>\<close> is dropped (the bytes are
  little-endian either way), then every format character takes the next value. A value
  that is missing is \<open>undefined\<close>, which the bitwise operators read as 0.
\<close>

fun structPack_loop :: "string \<Rightarrow> int list \<Rightarrow> u8 list" where
  "structPack_loop [] values = []"
| "structPack_loop (t # format) values =
     (let v = (case values of [] \<Rightarrow> 0 | v # _ \<Rightarrow> v);
          bytes =
            (if t = CHR ''I'' then numberToLE v 4
             else if t = CHR ''Q'' then
               numberToLE (sint (word_of_int v AND 0xFFFFFFFF :: 32 word)) 4 @
               numberToLE (v div 0x100000000) 4
             else if t = CHR ''H'' then numberToLE v 2
             else if t = CHR ''B'' then [word_of_int v AND 0xFF]
             else [])
      in bytes @ structPack_loop format (tl values))"

definition structPack :: "string \<Rightarrow> int list \<Rightarrow> u8 list" where
  "structPack format values =
     (case format of
        c # rest \<Rightarrow>
          if c = CHR ''<'' \<or> c = CHR ''>'' then structPack_loop rest values
          else structPack_loop format values
      | [] \<Rightarrow> [])"

text \<open>\<open>structUnpack('<II', buffer)\<close>, the only format the engine reads replies with.\<close>

definition structUnpack_II :: "u8 list \<Rightarrow> int \<times> int" where
  "structUnpack_II buffer = (LEToNumber buffer 0 4, LEToNumber buffer 4 4)"

text \<open>\<open>TypedArray.prototype.slice(start, end)\<close> for indices that are not negative.\<close>

definition u8_slice :: "u8 list \<Rightarrow> nat \<Rightarrow> nat \<Rightarrow> u8 list" where
  "u8_slice arr start end = take (end - start) (drop start arr)"

section \<open>The USB transport (class \<open>UsbDevice\<close>, list-files.ps1)\<close>

text \<open>
  \<open>UsbDevice\<close> hands every transfer to the browser's WebUSB device, \<open>this.device\<close>,
  which is not part of the program. Here that device is a script: the outcome of the n-th
  call of \<open>transferOut\<close> (the \<open>bytesWritten\<close> of its result, \<open>WrittenAll\<close> standing for
  the length of the chunk, or a rejected promise) and of the n-th call of \<open>transferIn\<close>
  (the bytes of \<open>result.data.buffer\<close>, a rejected promise or a result without data, or no
  answer before the timer of \<open>read\<close> fires).

  The state that is threaded through: the two endpoints of \<open>UsbDevice\<close>, which \<open>connect\<close>
  sets and which are \<open>null\<close> (\<open>None\<close>) before; the script; and the record of every chunk
  handed to \<open>transferOut\<close> and of every size asked of \<open>transferIn\<close>, in order. A
  transfer enters the record when it is started, whether or not it then fails.
\<close>

datatype out_outcome = WrittenAll | Written nat | OutFails
datatype in_outcome = Data "u8 list" | InFails | TimedOut

record usb =
  endpointOut :: "nat option"
  endpointIn :: "nat option"
  on_transferOut :: "nat \<Rightarrow> out_outcome"
  on_transferIn :: "nat \<Rightarrow> in_outcome"
  sent :: "u8 list list"
  requested :: "nat list"

text \<open>
  Exceptions: \<open>throw new Error(message)\<close> keeps the message without the values the
  source interpolates into it; \<open>RangeError\<close> is the one typed arrays and data views throw.
\<close>

datatype exn = Error string | RangeError

type_synonym 'a io = "usb \<Rightarrow> (exn + 'a) \<times> usb"

definition io_return :: "'a \<Rightarrow> 'a io" where
  "io_return x s = (Inr x, s)"

definition io_throw :: "exn \<Rightarrow> 'a io" where
  "io_throw e s = (Inl e, s)"

definition io_bind :: "'a io \<Rightarrow> ('a \<Rightarrow> 'b io) \<Rightarrow> 'b io" where
  "io_bind m f s = (case m s of (Inl e, s') \<Rightarrow> (Inl e, s') | (Inr x, s') \<Rightarrow> f x s')"

text \<open>\<open>try { m } catch (error) { h(error) }\<close>\<close>

definition io_catch :: "'a io \<Rightarrow> (exn \<Rightarrow> 'a io) \<Rightarrow> 'a io" where
  "io_catch m h s = (case m s of (Inl e, s') \<Rightarrow> h e s' | (Inr x, s') \<Rightarrow> (Inr x, s'))"

text \<open>The two calls of the browser's device, \<open>this.device.transferOut\<close> and \<open>transferIn\<close>.\<close>

definition transferOut :: "u8 list \<Rightarrow> nat io" where
  "transferOut chunk s =
     (let s' = s\<lparr>sent := sent s @ [chunk]\<rparr>
      in case on_transferOut s (length (sent s)) of
           WrittenAll \<Rightarrow> (Inr (length chunk), s')
         | Written n \<Rightarrow> (Inr n, s')
         | OutFails \<Rightarrow> (Inl (Error ''transferOut''), s'))"

definition transferIn :: "nat \<Rightarrow> u8 list io" where
  "transferIn size_asked s =
     (let s' = s\<lparr>requested := requested s @ [size_asked]\<rparr>
      in case on_transferIn s (length (requested s)) of
           Data bytes \<Rightarrow> (Inr bytes, s')
         | InFails \<Rightarrow> (Inl (Error ''transferIn''), s')
         | TimedOut \<Rightarrow> (Inl (Error ''timeout''), s'))"

text \<open>
  The loop of \<open>write\<close> for data of more than 65536 bytes,
  \<open>while (offset < data.length)\<close>: chunks of 64 KiB, left by \<open>break\<close> after a chunk
  that was not written whole.
\<close>

function write_chunks :: "u8 list \<Rightarrow> nat \<Rightarrow> nat \<Rightarrow> nat io" where
  "write_chunks data offset totalWritten s =
     (if offset < length data then
        (let chunkEnd = min (offset + 65536) (length data);
             chunk = u8_slice data offset chunkEnd
         in case transferOut chunk s of
              (Inl e, s') \<Rightarrow> (Inl e, s')
            | (Inr bytesWritten, s') \<Rightarrow>
                if bytesWritten \<noteq> length chunk then (Inr (totalWritten + bytesWritten), s')
                else write_chunks data chunkEnd (totalWritten + bytesWritten) s')
      else (Inr totalWritten, s))"
  by pat_completeness auto
termination
  by (relation "measure (\<lambda>(data, offset, totalWritten, s). length data - offset)") auto

declare write_chunks.simps [simp del]

text \<open>
  \<open>UsbDevice.write(data)\<close>: it throws when the OUT endpoint is not set; whatever the
  transfer throws is thrown again as \<open>USB write failed\<close>. The result is the number of
  bytes the device reports as written.
\<close>

definition usb_write :: "u8 list \<Rightarrow> nat io" where
  "usb_write data s =
     (if endpointOut s = None then io_throw (Error ''Device not connected'') s
      else io_catch
             (if length data > 65536 then write_chunks data 0 0 else transferOut data)
             (\<lambda>error. io_throw (Error ''USB write failed'')) s)"

text \<open>
  \<open>UsbDevice.read(size, timeout)\<close>: it throws when the IN endpoint is not set; the
  transfer races against a timer of \<open>timeout\<close> seconds. The result is the whole buffer of
  the data received, \<open>new Uint8Array(result.data.buffer)\<close>: \<open>read\<close> itself does not cut
  it to \<open>size\<close>.
\<close>

definition usb_read :: "nat \<Rightarrow> nat \<Rightarrow> u8 list io" where
  "usb_read size_asked timeout s =
     (if endpointIn s = None then io_throw (Error ''Device not connected'') s
      else io_catch (transferIn size_asked)
             (\<lambda>error. if error = Error ''timeout'' then io_throw (Error ''USB read timeout'')
                      else io_throw (Error ''USB read failed'')) s)"

text \<open>\<open>try { await this.usbDevice.write(new Uint8Array(0)); } catch (e) {}\<close>\<close>

definition empty_transfer :: "unit io" where
  "empty_transfer = io_catch (io_bind (usb_write []) (\<lambda>_. io_return ())) (\<lambda>e. io_return ())"

section \<open>The download engine (download-engine.js)\<close>

text \<open>
  The sizes the constructor sets; nothing in the sources assigns them again. The timeouts
  are in seconds and have no effect in this model.
\<close>

definition packetSize :: nat where "packetSize = 1024"
definition fileTransferPacketSize :: nat where "fileTransferPacketSize = 131072"
definition TIMEOUT_HANDSHAKE :: nat where "TIMEOUT_HANDSHAKE = 60"
definition TIMEOUT_TRANSFER :: nat where "TIMEOUT_TRANSFER = 60"

text \<open>
  Every command is sent the same way, written out at each place in the source: a
  1024-byte \<open>Uint8Array\<close> that is new or has just been cleared with \<open>buf.fill(0)\<close>, the
  packed fields stored with \<open>buf.set(..., 0)\<close>, and \<open>buf.slice(0, this.packetSize)\<close>
  handed to \<open>write\<close>. \<open>command_buffer\<close> is the buffer with its fields; \<open>send_command\<close>
  writes it.
\<close>

definition command_buffer :: "u8 list \<Rightarrow> u8 list io" where
  "command_buffer packed =
     (case u8_set (replicate 1024 0) packed 0 of
        None \<Rightarrow> io_throw RangeError
      | Some buf \<Rightarrow> io_return buf)"

definition send_command :: "u8 list \<Rightarrow> nat io" where
  "send_command packed =
     io_bind (command_buffer packed) (\<lambda>buf. usb_write (u8_slice buf 0 packetSize))"

subsection \<open>Handshake\<close>

definition handshake :: "bool io" where
  "handshake =
     io_catch
       (io_bind (usb_write (TextEncoder_encode ''ODIN'')) (\<lambda>written.
          if written \<noteq> 4 then io_return False
          else io_bind (usb_read 64 TIMEOUT_HANDSHAKE) (\<lambda>resp.
            if length resp < 4 then io_return False
            else if resp ! 0 = 76 \<and> resp ! 1 = 79 \<and> resp ! 2 = 75 \<and> resp ! 3 = 69
              then io_return True
            else io_return False)))
       (\<lambda>error. io_return False)"

subsection \<open>Receiving the PIT\<close>

text \<open>
  The size reply is read at most twice: \<open>for (let retry = 0; retry < 2; retry++)\<close>,
  left as soon as a read gives eight bytes or more.
\<close>

definition read_pit_size_reply :: "u8 list io" where
  "read_pit_size_reply =
     io_bind (usb_read 64 60) (\<lambda>resp.
       if length resp \<ge> 8 then io_return resp else usb_read 64 60)"

text \<open>One turn of the chunk loop: the request \<open>(101, 2, counter)\<close> and the read.\<close>

definition request_pit_chunk :: "nat \<Rightarrow> int \<Rightarrow> u8 list io" where
  "request_pit_chunk counter remaining =
     io_bind (send_command (structPack ''<III'' [101, 2, int counter])) (\<lambda>_.
       usb_read (nat (min 500 remaining)) 60)"

text \<open>
  \<open>while (remaining > 0)\<close>, left by \<open>break\<close> when a read gives no bytes. The result
  is the loop's variables: \<open>pitData\<close>, \<open>counter\<close> and \<open>remaining\<close>.
\<close>

function receive_pit_chunks ::
  "u8 list list \<Rightarrow> nat \<Rightarrow> int \<Rightarrow> (u8 list list \<times> nat \<times> int) io" where
  "receive_pit_chunks pitData counter remaining s =
     (if remaining > 0 then
        (case request_pit_chunk counter remaining s of
           (Inl e, s') \<Rightarrow> (Inl e, s')
         | (Inr chunk, s') \<Rightarrow>
             if length chunk = 0 then (Inr (pitData, counter, remaining), s')
             else receive_pit_chunks (pitData @ [chunk]) (counter + 1)
                    (remaining - int (length chunk)) s')
      else (Inr (pitData, counter, remaining), s))"
  by pat_completeness auto
termination
  by (relation "measure (\<lambda>(pitData, counter, remaining, s). nat remaining)") auto

declare receive_pit_chunks.simps [simp del]

definition concatUint8Arrays :: "u8 list list \<Rightarrow> u8 list" where
  "concatUint8Arrays arrays = concat arrays"

definition receivePitData :: "u8 list io" where
  "receivePitData =
     io_bind (send_command (structPack ''<III'' [101, 1, 0])) (\<lambda>_.
     io_bind read_pit_size_reply (\<lambda>resp.
       if length resp < 8 then io_throw (Error ''PIT request timeout'')
       else
         let (respCmd, respData) = structUnpack_II resp in
         if respCmd \<noteq> 101 then io_throw (Error ''PIT cmd, expected 101'')
         else
           let pitSize = respData in
           if pitSize = 0 \<or> pitSize > 0x100000 then io_throw (Error ''Invalid PIT size'')
           else
             io_bind (receive_pit_chunks [] 0 pitSize) (\<lambda>(pitData, counter, remaining).
             io_bind (send_command (structPack ''<III'' [101, 3, 0])) (\<lambda>_.
             io_bind (usb_read 64 60) (\<lambda>_.
               io_return (concatUint8Arrays pitData))))))"

subsection \<open>Closing the session and rebooting\<close>

definition closeConnection :: "unit io" where
  "closeConnection =
     io_catch
       (io_bind (send_command (structPack ''<III'' [103, 0, 0])) (\<lambda>_.
        io_bind (usb_read 64 TIMEOUT_TRANSFER) (\<lambda>resp. io_return ())))
       (\<lambda>error. io_return ())"

definition rebootDevice :: "unit io" where
  "rebootDevice =
     io_catch
       (io_bind (send_command (structPack ''<III'' [103, 1, 0])) (\<lambda>_. io_return ()))
       (\<lambda>error. io_return ())"

text \<open>
  The bytes of a command frame, for the statements about what is written: the packed
  fields followed by zeros up to 1024 bytes.
\<close>

definition frame :: "u8 list \<Rightarrow> u8 list" where
  "frame packed = packed @ replicate (1024 - length packed) 0"

text \<open>
  A device is connected when \<open>connect\<close> has set both endpoints; the engine is only ever
  made for a connected device (\<open>connectDevice\<close> throws when \<open>connect\<close> fails).
\<close>

definition connected :: "usb \<Rightarrow> bool" where
  "connected s \<longleftrightarrow> endpointOut s \<noteq> None \<and> endpointIn s \<noteq> None"

text \<open>
  Scripted devices for the examples: a connected device that reports every chunk as
  written whole and answers the n-th \<open>transferIn\<close> with \<open>replies n\<close>.
\<close>

definition scripted :: "(nat \<Rightarrow> in_outcome) \<Rightarrow> usb" where
  "scripted replies =
     \<lparr> endpointOut = Some 2, endpointIn = Some 1, on_transferOut = (\<lambda>n. WrittenAll),
       on_transferIn = replies, sent = [], requested = [] \<rparr>"

definition loke_device :: usb where
  "loke_device = scripted (\<lambda>n. Data [76, 79, 75, 69])"




section \<open>LZ4 block decoder (lz4-streaming.js)\<close>

text \<open>
  The length extension of a token (LSIC): \<open>do { len = src[srcPos++]; length += len; }
  while (len === 255)\<close>. A read beyond the end of \<open>src\<close> gives \<open>undefined\<close>: the sum
  becomes \<open>NaN\<close> (\<open>None\<close>) and the loop ends, \<open>srcPos\<close> having moved one further.
\<close>

function read_length_ext :: "u8 list \<Rightarrow> nat \<Rightarrow> nat \<Rightarrow> nat option \<times> nat" where
  "read_length_ext src srcPos len =
     (if srcPos < length src then
        (if src ! srcPos = 255 then read_length_ext src (srcPos + 1) (len + 255)
         else (Some (len + unat (src ! srcPos)), srcPos + 1))
      else (None, srcPos + 1))"
  by pat_completeness auto
termination
  by (relation "measure (\<lambda>(src, srcPos, len). length src - srcPos)") auto

declare read_length_ext.simps [simp del]

text \<open>
  \<open>for (let i = 0; i < n; i++) dst[dstPos++] = src[srcPos++]\<close>. A byte read beyond the
  end of \<open>src\<close> is \<open>undefined\<close> and is stored as 0; a store beyond the end of \<open>dst\<close> is
  ignored. With \<open>n\<close> \<open>NaN\<close> the loop body never runs.
\<close>

fun copy_literals :: "u8 list \<Rightarrow> u8 list \<Rightarrow> nat \<Rightarrow> nat \<Rightarrow> nat \<Rightarrow> u8 list \<times> nat \<times> nat" where
  "copy_literals src dst srcPos dstPos 0 = (dst, srcPos, dstPos)"
| "copy_literals src dst srcPos dstPos (Suc n) =
     copy_literals src (dst[dstPos := (if srcPos < length src then src ! srcPos else 0)])
       (srcPos + 1) (dstPos + 1) n"

text \<open>\<open>for (let i = 0; i < n; i++) dst[dstPos++] = dst[matchPos++]\<close>\<close>

fun copy_match :: "u8 list \<Rightarrow> nat \<Rightarrow> nat \<Rightarrow> nat \<Rightarrow> u8 list \<times> nat" where
  "copy_match dst dstPos matchPos 0 = (dst, dstPos)"
| "copy_match dst dstPos matchPos (Suc n) =
     copy_match (dst[dstPos := (if matchPos < length dst then dst ! matchPos else 0)])
       (dstPos + 1) (matchPos + 1) n"

text \<open>
  One turn of the \<open>while (srcPos < src.length)\<close> loop, entered with \<open>srcPos\<close> inside
  \<open>src\<close>, in two parts. The first part is the token, the literals, the test for the end
  of the block (\<open>break\<close>) and the two bytes of the offset: it either leaves the loop
  (\<open>EndOfBlock\<close>, with the output and \<open>dstPos\<close>) or has read an offset (\<open>Match\<close>,
  with the output, \<open>srcPos\<close> behind the offset, \<open>dstPos\<close> and the offset).
\<close>

datatype sequence_start =
    EndOfBlock "u8 list" nat
  | Match "u8 list" nat nat nat

definition read_sequence :: "u8 list \<Rightarrow> u8 list \<Rightarrow> nat \<Rightarrow> nat \<Rightarrow> sequence_start" where
  "read_sequence src dst srcPos0 dstPos0 =
     (let token = src ! srcPos0;
          srcPos = srcPos0 + 1;
          (literalLength, srcPos) =
            (if drop_bit 4 token = 15 then read_length_ext src srcPos 15
             else (Some (unat (drop_bit 4 token)), srcPos));
          (dst, srcPos, dstPos) =
            (case literalLength of
               None \<Rightarrow> (dst, srcPos, dstPos0)
             | Some n \<Rightarrow> copy_literals src dst srcPos dstPos0 n)
      in if srcPos \<ge> length src then EndOfBlock dst dstPos
         else
           let offset = unat (byte_at src srcPos OR push_bit 8 (byte_at src (srcPos + 1)));
               srcPos = srcPos + 2
           in Match dst srcPos dstPos offset)"

text \<open>
  The second part, for the token of the turn and the offset read: the test for an offset
  of 0, the match length, the test for a match that starts before the output, and the copy.
  It throws or goes on (\<open>Continue\<close>, with the output, \<open>srcPos\<close> and \<open>dstPos\<close>).
\<close>

datatype match_result =
    Throw exn
  | Continue "u8 list" nat nat

definition copy_sequence_match ::
  "u8 \<Rightarrow> u8 list \<Rightarrow> u8 list \<Rightarrow> nat \<Rightarrow> nat \<Rightarrow> nat \<Rightarrow> match_result" where
  "copy_sequence_match token src dst srcPos dstPos offset =
     (if offset = 0 then Throw (Error ''Invalid offset (0)'')
      else
        let (matchLength, srcPos) =
              (if token AND 0xF = 15 then read_length_ext src srcPos (15 + 4)
               else (Some (unat (token AND 0xF) + 4), srcPos))
        in if dstPos < offset then Throw (Error ''Invalid match position'')
           else
             let (dst', dstPos') =
                   (case matchLength of
                      None \<Rightarrow> (dst, dstPos)
                    | Some n \<Rightarrow> copy_match dst dstPos (dstPos - offset) n)
             in Continue dst' srcPos dstPos')"

lemma read_length_ext_progress:
  "read_length_ext src srcPos len = (r, srcPos') \<Longrightarrow> srcPos < srcPos'"
proof (induction src srcPos len rule: read_length_ext.induct)
  case (1 src srcPos len)
  then show ?case
    by (subst (asm) (2) read_length_ext.simps) (auto split: if_splits)
qed

lemma copy_literals_srcPos:
  "copy_literals src dst srcPos dstPos n = (dst', srcPos', dstPos') \<Longrightarrow> srcPos' = srcPos + n"
proof (induction n arbitrary: dst srcPos dstPos)
  case 0
  then show ?case by simp
next
  case (Suc n)
  from Suc.prems have "copy_literals src (dst[dstPos := (if srcPos < length src then src ! srcPos else 0)])
       (srcPos + 1) (dstPos + 1) n = (dst', srcPos', dstPos')"
    by simp
  from Suc.IH[OF this] show ?case by simp
qed

lemma read_sequence_progress:
  assumes "read_sequence src dst srcPos dstPos = Match dst1 srcPos1 dstPos1 offset"
  shows "srcPos < srcPos1"
  using assms unfolding read_sequence_def Let_def
  by (auto split: if_splits prod.splits option.splits
           dest!: read_length_ext_progress copy_literals_srcPos)

lemma copy_sequence_match_progress:
  assumes "copy_sequence_match token src dst srcPos dstPos offset = Continue dst' srcPos' dstPos'"
  shows "srcPos \<le> srcPos'"
  using assms unfolding copy_sequence_match_def Let_def
  by (auto split: if_splits prod.splits option.splits dest!: read_length_ext_progress)

text \<open>
  The loop. Beside the result (the exception thrown, or the output buffer and \<open>dstPos\<close>)
  it gives the record of every offset that was read, with the output position at that
  moment, in order. The source keeps no such record; it is there for the statements about
  the offsets, and an offset enters it before any test is made on it.
\<close>

function decompress_loop ::
  "u8 list \<Rightarrow> u8 list \<Rightarrow> nat \<Rightarrow> nat \<Rightarrow> (nat \<times> nat) list \<Rightarrow>
   (exn + u8 list \<times> nat) \<times> (nat \<times> nat) list" where
  "decompress_loop src dst srcPos dstPos offsets =
     (if srcPos < length src then
        (case read_sequence src dst srcPos dstPos of
           EndOfBlock dst' dstPos' \<Rightarrow> (Inr (dst', dstPos'), offsets)
         | Match dst1 srcPos1 dstPos1 offset \<Rightarrow>
             (case copy_sequence_match (src ! srcPos) src dst1 srcPos1 dstPos1 offset of
                Throw e \<Rightarrow> (Inl e, offsets @ [(offset, dstPos1)])
              | Continue dst' srcPos' dstPos' \<Rightarrow>
                  decompress_loop src dst' srcPos' dstPos' (offsets @ [(offset, dstPos1)])))
      else (Inr (dst, dstPos), offsets))"
  by pat_completeness auto
termination
proof (relation "measure (\<lambda>(src, dst, srcPos, dstPos, offsets). length src - srcPos)",
       goal_cases)
  case 1
  show ?case by simp
next
  case (2 src dst srcPos dstPos offsets dst1 srcPos1 dstPos1 offset dst' srcPos' dstPos')
  from read_sequence_progress[OF 2(2)] copy_sequence_match_progress[OF 2(3)] 2(1)
  show ?case by simp
qed

declare decompress_loop.simps [simp del]

text \<open>
  \<open>decompressBlock(src, maxSize)\<close>: the output buffer has \<open>maxSize\<close> bytes, and
  \<open>dst.slice(0, dstPos)\<close> is returned. \<open>decompressBlock_traced\<close> also gives \<open>dstPos\<close>
  and the record of the offsets.
\<close>

definition decompressBlock_traced ::
  "u8 list \<Rightarrow> nat \<Rightarrow> (exn + u8 list \<times> nat) \<times> (nat \<times> nat) list" where
  "decompressBlock_traced src maxSize =
     (case decompress_loop src (replicate maxSize 0) 0 0 [] of
        (Inl e, offsets) \<Rightarrow> (Inl e, offsets)
      | (Inr (dst, dstPos), offsets) \<Rightarrow> (Inr (u8_slice dst 0 dstPos, dstPos), offsets))"

definition decompressBlock :: "u8 list \<Rightarrow> nat \<Rightarrow> exn + u8 list" where
  "decompressBlock src maxSize =
     (case fst (decompressBlock_traced src maxSize) of
        Inl e \<Rightarrow> Inl e
      | Inr (out, dstPos) \<Rightarrow> Inr out)"

text \<open>An offset is in bounds when it is not 0 and does not reach before the output.\<close>

definition offset_in_bounds :: "nat \<times> nat \<Rightarrow> bool" where
  "offset_in_bounds c \<longleftrightarrow> 0 < fst c \<and> fst c \<le> snd c"

section \<open>Transferring one file (download-engine.js)\<close>

text \<open>
  A firmware item: \<open>new FirmwareItem(filename, data, info)\<close>. \<open>data\<close> is \<open>null\<close>
  (\<open>None\<close>) for a member that stays in the archive file; then \<open>info\<close> holds the file
  (its bytes), the offset of the member and its size. A field of \<open>info\<close> that was never
  set is \<open>undefined\<close> (\<open>None\<close>). The field \<open>info.fileOffset\<close> is \<open>itemFileOffset\<close>
  here, and the variable \<open>fileSize\<close> of \<open>transferFile\<close> is \<open>file_size\<close>: the PIT entry
  has fields of both names, as it has \<open>deviceType\<close> and \<open>partitionId\<close>, which are
  \<open>devType\<close> and \<open>partId\<close> where they are variables of the engine.
\<close>

record item_info =
  partition_id :: "int option"
  device_type :: "int option"
  isLargeFile :: bool
  fileHandle :: "u8 list option"
  itemFileOffset :: "nat option"
  actualSize :: nat
  is_compressed :: bool
  compression_type :: "string option"
  useStreamingLZ4 :: bool

record FirmwareItem =
  filename :: string
  data :: "u8 list option"
  info :: item_info

text \<open>
  The decompression libraries are not part of the sources; they are parameters. A library
  that is not loaded is \<open>None\<close>.
\<close>

record libraries =
  pako_inflate :: "(u8 list \<Rightarrow> exn + u8 list) option"
  lz4_decode :: "(u8 list \<Rightarrow> exn + u8 list) option"

definition endsWith :: "string \<Rightarrow> string \<Rightarrow> bool" where
  "endsWith str suffix \<longleftrightarrow>
     length suffix \<le> length str \<and> drop (length str - length suffix) str = suffix"

definition startsWith :: "string \<Rightarrow> string \<Rightarrow> bool" where
  "startsWith str pre \<longleftrightarrow> take (length pre) str = pre"

fun str_includes :: "string \<Rightarrow> string \<Rightarrow> bool" where
  "str_includes [] sub \<longleftrightarrow> sub = []"
| "str_includes (c # cs) sub \<longleftrightarrow> take (length sub) (c # cs) = sub \<or> str_includes cs sub"

text \<open>\<open>Blob.slice(start, end)\<close> read as bytes, for offsets that are not negative.\<close>

definition blob_slice :: "u8 list \<Rightarrow> nat \<Rightarrow> nat \<Rightarrow> u8 list" where
  "blob_slice file start end = take (end - start) (drop start file)"

definition MAX_CHUNK_SIZE :: nat where "MAX_CHUNK_SIZE = 0x1E00000"

text \<open>
  The start of \<open>transferFile\<close>: where the bytes come from. The result is \<open>data\<close> (the
  bytes in memory, or \<open>None\<close> when they are read from the file block by block) and
  \<open>fileSize\<close>.
\<close>

definition locate_data :: "FirmwareItem \<Rightarrow> exn + (u8 list option \<times> nat)" where
  "locate_data item =
     (case data item of
        Some d \<Rightarrow> Inr (Some d, length d)
      | None \<Rightarrow>
          (case (isLargeFile (info item), fileHandle (info item), itemFileOffset (info item)) of
             (True, Some file, Some off) \<Rightarrow>
               if is_compressed (info item) then
                 (if actualSize (info item) > 4 * 1024 * 1024 * 1024
                  then Inr (None, actualSize (info item))
                  else let d = blob_slice file off (off + actualSize (info item))
                       in Inr (Some d, length d))
               else Inr (None, actualSize (info item))
           | _ \<Rightarrow> Inl (Error ''No data available'')))"

definition detect_compression :: "FirmwareItem \<Rightarrow> string option" where
  "detect_compression item =
     (let compressionType = compression_type (info item)
      in if compressionType = Some ''none'' \<or> compressionType = None \<or> compressionType = Some ''''
         then (if endsWith (filename item) ''.lz4'' then Some ''lz4''
               else if endsWith (filename item) ''.gz'' then Some ''gzip''
               else compressionType)
         else compressionType)"

text \<open>
  Decompression of a compressed member that is in memory. The result is the new \<open>data\<close>,
  \<open>fileSize\<close>, and whether the member goes through the streaming decoder instead.
\<close>

definition handle_compression ::
  "libraries \<Rightarrow> FirmwareItem \<Rightarrow> u8 list option \<Rightarrow> nat \<Rightarrow> exn + (u8 list option \<times> nat \<times> bool)" where
  "handle_compression libs item dat file_size =
     (if is_compressed (info item) then
        (let compressionType = detect_compression item
         in case dat of
              Some d \<Rightarrow>
                if compressionType = Some ''gzip'' then
                  (case pako_inflate libs of
                     None \<Rightarrow> Inl (Error ''pako library required for GZIP decompression'')
                   | Some inflate \<Rightarrow>
                       (case inflate d of
                          Inl e \<Rightarrow> Inl e
                        | Inr d' \<Rightarrow> Inr (Some d', length d', False)))
                else if compressionType = Some ''lz4'' then
                  (case lz4_decode libs of
                     None \<Rightarrow> Inl (Error ''LZ4 library not loaded'')
                   | Some decode \<Rightarrow>
                       (case decode d of
                          Inl e \<Rightarrow> Inl e
                        | Inr d' \<Rightarrow>
                            if length d' = 0
                            then Inl (Error ''LZ4 decompression returned empty data'')
                            else Inr (Some d', length d', False)))
                else Inr (Some d, length d, False)
            | None \<Rightarrow> Inr (None, file_size, True))
      else Inr (dat, file_size, False))"

subsection \<open>The blocks of a sequence\<close>

text \<open>
  The block at \<open>offset + chunkOffset\<close>: a slice of the data in memory, or of the file. The
  second case of the source wraps the read in a \<open>try\<close>; reading a slice of a byte list
  cannot fail.
\<close>

definition read_block ::
  "FirmwareItem \<Rightarrow> u8 list option \<Rightarrow> nat \<Rightarrow> nat \<Rightarrow> nat \<Rightarrow> exn + u8 list" where
  "read_block item dat offset chunkOffset blockSize =
     (case dat of
        Some d \<Rightarrow>
          let blockStart = offset + chunkOffset;
              blockEnd = blockStart + blockSize
          in if blockStart \<ge> length d then Inl (Error ''Reading beyond data array'')
             else Inr (u8_slice d blockStart blockEnd)
      | None \<Rightarrow>
          let fileBlockStart = the (itemFileOffset (info item)) + offset + chunkOffset;
              fileBlockEnd = fileBlockStart + blockSize
          in Inr (blob_slice (the (fileHandle (info item))) fileBlockStart fileBlockEnd))"

text \<open>\<open>if (block.length < this.fileTransferPacketSize) { padded.set(block); block = padded; }\<close>\<close>

definition pad_block :: "u8 list \<Rightarrow> u8 list" where
  "pad_block block =
     (if length block < fileTransferPacketSize
      then block @ replicate (fileTransferPacketSize - length block) 0
      else block)"

text \<open>One turn of the block loop of \<open>transferFile\<close>, after the block has been read.\<close>

definition send_block :: "u8 list \<Rightarrow> nat \<Rightarrow> unit io" where
  "send_block block blockCount =
     io_bind (if blockCount > 0 then empty_transfer else io_return ()) (\<lambda>_.
     io_bind (usb_write (pad_block block)) (\<lambda>written.
       if written \<noteq> fileTransferPacketSize then io_throw (Error ''Expected to write'')
       else io_bind (usb_read 64 60) (\<lambda>blockResp.
         if length blockResp \<noteq> 8 then io_throw (Error ''Expected 8-byte response'')
         else io_return ())))"

text \<open>
  \<open>while (chunkOffset < chunkSize)\<close>. The result is \<open>chunkOffset\<close> and
  \<open>blockCount\<close> at the end.
\<close>

function send_blocks ::
  "FirmwareItem \<Rightarrow> u8 list option \<Rightarrow> nat \<Rightarrow> nat \<Rightarrow> nat \<Rightarrow> nat \<Rightarrow> (nat \<times> nat) io" where
  "send_blocks item dat offset chunkSize chunkOffset blockCount s =
     (if chunkOffset < chunkSize then
        (let blockSize = min fileTransferPacketSize (chunkSize - chunkOffset)
         in case read_block item dat offset chunkOffset blockSize of
              Inl e \<Rightarrow> (Inl e, s)
            | Inr block \<Rightarrow>
                (case send_block block blockCount s of
                   (Inl e, s') \<Rightarrow> (Inl e, s')
                 | (Inr _, s') \<Rightarrow>
                     send_blocks item dat offset chunkSize (chunkOffset + blockSize)
                       (blockCount + 1) s'))
      else (Inr (chunkOffset, blockCount), s))"
  by pat_completeness auto
termination
  by (relation "measure (\<lambda>(item, dat, offset, chunkSize, chunkOffset, blockCount, s).
                           chunkSize - chunkOffset)")
     (auto simp: fileTransferPacketSize_def)

declare send_blocks.simps [simp del]

subsection \<open>The sequences of a file\<close>

text \<open>
  The finalizer of a sequence: \<open>buf.fill(0)\<close>, the command \<open>(102, 3)\<close> at offset 0 and six
  more fields at offset 8.
\<close>

definition finalize_buffer :: "nat \<Rightarrow> int \<Rightarrow> int \<Rightarrow> int \<Rightarrow> u8 list io" where
  "finalize_buffer actualBytes devType partId completionStatus =
     (case u8_set (replicate 1024 0) (structPack ''<II'' [102, 3]) 0 of
        None \<Rightarrow> io_throw RangeError
      | Some buf \<Rightarrow>
          (case u8_set buf
                  (structPack ''<IIIIII''
                     [0, int actualBytes, 0, devType, partId, completionStatus]) 8 of
             None \<Rightarrow> io_throw RangeError
           | Some buf \<Rightarrow> io_return buf))"

text \<open>
  Sending the finalizer, between two empty transfers, and reading its reply. A failed read
  is caught and leaves \<open>finalResp\<close> \<open>null\<close>.
\<close>

definition finalize_sequence :: "nat \<Rightarrow> int \<Rightarrow> int \<Rightarrow> int \<Rightarrow> unit io" where
  "finalize_sequence chunkOffset devType partId completionStatus =
     io_bind (finalize_buffer chunkOffset devType partId completionStatus) (\<lambda>buf.
     io_bind empty_transfer (\<lambda>_.
     io_bind (usb_write (u8_slice buf 0 packetSize)) (\<lambda>_.
     io_bind empty_transfer (\<lambda>_.
     io_bind (io_catch (io_bind (usb_read 64 120) (\<lambda>r. io_return (Some r)))
                (\<lambda>error. io_return None)) (\<lambda>finalResp.
       case finalResp of
         Some r \<Rightarrow>
           if length r \<ge> 8 then
             (let (finalCmd, finalData) = structUnpack_II r
              in if finalCmd = 0xFFFFFFFF then io_throw (Error ''Finalize rejected'')
                 else if finalCmd \<noteq> 102 then io_throw (Error ''Unexpected response'')
                 else io_return ())
           else if completionStatus = 1 then io_return ()
           else io_throw (Error ''No response on intermediate chunk'')
       | None \<Rightarrow>
           if completionStatus = 1 then io_return ()
           else io_throw (Error ''No response on intermediate chunk''))))))"

text \<open>The start of a sequence: \<open>(102, 2, chunkSize)\<close> and its reply.\<close>

definition begin_sequence :: "nat \<Rightarrow> unit io" where
  "begin_sequence chunkSize =
     io_bind (send_command (structPack ''<III'' [102, 2, int chunkSize])) (\<lambda>_.
     io_bind (usb_read 64 60) (\<lambda>resp2.
       if length resp2 < 8 then io_throw (Error ''Sequence begin timeout'')
       else let (cmd2, data2) = structUnpack_II resp2
            in if cmd2 \<noteq> 102 then io_throw (Error ''Sequence begin rejected'')
               else io_return ()))"

text \<open>One turn of \<open>while (offset < file_size)\<close>: a whole sequence.\<close>

definition send_sequence ::
  "FirmwareItem \<Rightarrow> u8 list option \<Rightarrow> nat \<Rightarrow> int \<Rightarrow> int \<Rightarrow> nat \<Rightarrow> nat \<Rightarrow> unit io" where
  "send_sequence item dat file_size devType partId offset chunkSize =
     io_bind (begin_sequence chunkSize) (\<lambda>_.
     io_bind (send_blocks item dat offset chunkSize 0 0) (\<lambda>(chunkOffset, blockCount).
       let remainingAfter = int file_size - (int offset + int chunkSize);
           completionStatus = (if remainingAfter \<le> 0 then 1 else 0)
       in finalize_sequence chunkOffset devType partId completionStatus))"

function send_sequences ::
  "FirmwareItem \<Rightarrow> u8 list option \<Rightarrow> nat \<Rightarrow> int \<Rightarrow> int \<Rightarrow> nat \<Rightarrow> unit io" where
  "send_sequences item dat file_size devType partId offset s =
     (if offset < file_size then
        (let remaining = file_size - offset;
             chunkSize = min remaining MAX_CHUNK_SIZE
         in case send_sequence item dat file_size devType partId offset chunkSize s of
              (Inl e, s') \<Rightarrow> (Inl e, s')
            | (Inr _, s') \<Rightarrow>
                send_sequences item dat file_size devType partId (offset + chunkSize) s')
      else (Inr (), s))"
  by pat_completeness auto
termination
  by (relation "measure (\<lambda>(item, dat, file_size, devType, partId, offset, s).
                           file_size - offset)")
     (auto simp: MAX_CHUNK_SIZE_def)

declare send_sequences.simps [simp del]

text \<open>The activation \<open>(102, 0, 0)\<close> and its reply.\<close>

definition activate_transfer :: "unit io" where
  "activate_transfer =
     io_bind (send_command (structPack ''<III'' [102, 0, 0])) (\<lambda>_.
     io_bind (usb_read 64 60) (\<lambda>resp.
       if length resp < 8 then io_throw (Error ''File transfer activation timeout'')
       else let (respCmd, respData) = structUnpack_II resp
            in if respCmd \<noteq> 102 then io_throw (Error ''File transfer activation rejected'')
               else io_return ()))"

text \<open>
  The part of \<open>transferFile\<close> that talks to the device, for a member that does not go
  through the streaming decoder.
\<close>

definition transfer_sequences ::
  "FirmwareItem \<Rightarrow> u8 list option \<Rightarrow> nat \<Rightarrow> int \<Rightarrow> int \<Rightarrow> bool io" where
  "transfer_sequences item dat file_size devType partId =
     io_bind activate_transfer (\<lambda>_.
     io_bind (send_sequences item dat file_size devType partId 0) (\<lambda>_.
       io_return True))"

section \<open>Streaming LZ4 frames (lz4-streaming.js)\<close>

text \<open>
  \<open>new DataView(buffer).getUint32(0, true)\<close> on the bytes of a four-byte slice of the
  file; it throws a RangeError when the slice came out shorter.
\<close>

definition getUint32 :: "u8 list \<Rightarrow> exn + int" where
  "getUint32 bytes = (if length bytes < 4 then Inl RangeError else Inr (LEToNumber bytes 0 4))"

definition blockSizeTable :: "nat list" where
  "blockSizeTable = [0, 0, 0, 0, 64 * 1024, 256 * 1024, 1024 * 1024, 4 * 1024 * 1024]"

text \<open>
  The block loop of \<open>decompressStreaming\<close>, \<open>while (fileOffset < endOffset)\<close>. The slices
  are slices of the whole archive file. \<open>onChunk\<close> is the caller's callback; it receives
  every decompressed block and what the caller keeps between blocks (\<open>st\<close>).
\<close>

function lz4_blocks ::
  "u8 list \<Rightarrow> nat \<Rightarrow> nat \<Rightarrow> nat \<Rightarrow> bool \<Rightarrow> (u8 list \<Rightarrow> 'st \<Rightarrow> 'st io) \<Rightarrow> nat \<Rightarrow> 'st \<Rightarrow>
   (nat \<times> 'st) io" where
  "lz4_blocks tarFile filePos endOffset maxBlockSize blockChecksum onChunk totalDecompressed st s =
     (if filePos < endOffset then
        (case getUint32 (blob_slice tarFile filePos (filePos + 4)) of
           Inl e \<Rightarrow> (Inl e, s)
         | Inr blockSize \<Rightarrow>
             if blockSize = 0 then (Inr (totalDecompressed, st), s)
             else
               let isUncompressed = ((word_of_int blockSize :: 32 word) AND 0x80000000 \<noteq> 0);
                   actualBlockSize = unat ((word_of_int blockSize :: 32 word) AND 0x7FFFFFFF)
               in if actualBlockSize > maxBlockSize
                  then (Inl (Error ''Block size exceeds max''), s)
                  else
                    let blockData = blob_slice tarFile (filePos + 4) (filePos + 4 + actualBlockSize);
                        next = filePos + 4 + actualBlockSize + (if blockChecksum then 4 else 0)
                    in case (if isUncompressed then Inr blockData
                             else decompressBlock blockData maxBlockSize) of
                         Inl e \<Rightarrow> (Inl e, s)
                       | Inr decompressed \<Rightarrow>
                           (case onChunk decompressed st s of
                              (Inl e, s') \<Rightarrow> (Inl e, s')
                            | (Inr st', s') \<Rightarrow>
                                lz4_blocks tarFile next endOffset maxBlockSize blockChecksum
                                  onChunk (totalDecompressed + length decompressed) st' s'))
      else (Inr (totalDecompressed, st), s))"
  by pat_completeness auto
termination
  by (relation "measure (\<lambda>(tarFile, filePos, endOffset, maxBlockSize, blockChecksum, onChunk,
                            totalDecompressed, st, s). endOffset - filePos)")
     auto

declare lz4_blocks.simps [simp del]

text \<open>
  \<open>decompressStreaming(tarFile, offset, compressedSize, onChunk)\<close>: the magic number, the
  frame descriptor (a flag byte that is missing reads as 0), then the blocks.
\<close>

definition decompressStreaming ::
  "u8 list \<Rightarrow> nat \<Rightarrow> nat \<Rightarrow> (u8 list \<Rightarrow> 'st \<Rightarrow> 'st io) \<Rightarrow> 'st \<Rightarrow> (nat \<times> 'st) io" where
  "decompressStreaming tarFile offset compressedSize onChunk st =
     (let endOffset = offset + compressedSize
      in case getUint32 (blob_slice tarFile offset (offset + 4)) of
           Inl e \<Rightarrow> io_throw e
         | Inr magicNumber \<Rightarrow>
             if magicNumber \<noteq> 0x184D2204 then io_throw (Error ''Invalid LZ4 magic number'')
             else
               let fdView = blob_slice tarFile (offset + 4) (offset + 4 + 16);
                   flg = byte_at fdView 0;
                   bd = byte_at fdView 1;
                   blockChecksum = (drop_bit 4 flg AND 0x1 \<noteq> 0);
                   contentSize = (drop_bit 3 flg AND 0x1 \<noteq> 0);
                   dictID = (flg AND 0x1 \<noteq> 0);
                   blockMaxSize = unat (drop_bit 4 bd AND 0x7);
                   maxBlockSize = blockSizeTable ! blockMaxSize;
                   fdSize = 2 + (if contentSize then 8 else 0) + (if dictID then 4 else 0) + 1
               in lz4_blocks tarFile (offset + 4 + fdSize) endOffset maxBlockSize blockChecksum
                    onChunk 0 st)"

section \<open>Transferring a file through the streaming decoder (download-engine.js)\<close>

definition SEND_BUFFER_SIZE :: nat where "SEND_BUFFER_SIZE = 30 * 1024 * 1024"

text \<open>The variables of \<open>transferFileStreamingLZ4\<close> that its two closures share.\<close>

record stream_state =
  sendBuffer :: "u8 list"
  bufferPos :: nat
  totalDecompressed :: nat
  totalSent :: nat
  sequenceNum :: nat

text \<open>
  The block loop of \<open>flushBuffer\<close>, \<open>while (offset < bufferPos)\<close>. Neither the count
  that \<open>write\<close> returns nor the reply is looked at.
\<close>

function flush_blocks :: "u8 list \<Rightarrow> nat \<Rightarrow> nat \<Rightarrow> nat \<Rightarrow> unit io" where
  "flush_blocks buf bufPos offset blockCount s =
     (if offset < bufPos then
        (let blockSize = min fileTransferPacketSize (bufPos - offset);
             block = pad_block (u8_slice buf offset (offset + blockSize))
         in case io_bind (if blockCount > 0 then empty_transfer else io_return ()) (\<lambda>_.
                 io_bind (usb_write block) (\<lambda>_.
                 io_bind (usb_read 64 60) (\<lambda>_. io_return ()))) s of
              (Inl e, s') \<Rightarrow> (Inl e, s')
            | (Inr _, s') \<Rightarrow> flush_blocks buf bufPos (offset + blockSize) (blockCount + 1) s')
      else (Inr (), s))"
  by pat_completeness auto
termination
  by (relation "measure (\<lambda>(buf, bufPos, offset, blockCount, s). bufPos - offset)")
     (auto simp: fileTransferPacketSize_def)

declare flush_blocks.simps [simp del]

text \<open>
  \<open>flushBuffer(isFinal)\<close>. The read after the finalizer is not inside a \<open>try\<close> here, and
  no reply is checked.
\<close>

definition flushBuffer :: "int \<Rightarrow> int \<Rightarrow> bool \<Rightarrow> stream_state \<Rightarrow> stream_state io" where
  "flushBuffer devType partId isFinal st =
     (if bufferPos st = 0 then io_return st
      else
        io_bind (send_command (structPack ''<III'' [102, 2, int (bufferPos st)])) (\<lambda>_.
        io_bind (usb_read 64 60) (\<lambda>_.
        io_bind (flush_blocks (sendBuffer st) (bufferPos st) 0 0) (\<lambda>_.
          let completionStatus = (if isFinal then 1 else 0)
          in io_bind (finalize_buffer (bufferPos st) devType partId completionStatus) (\<lambda>buf.
             io_bind empty_transfer (\<lambda>_.
             io_bind (usb_write (u8_slice buf 0 packetSize)) (\<lambda>_.
             io_bind empty_transfer (\<lambda>_.
             io_bind (usb_read 64 120) (\<lambda>_.
               io_return (st\<lparr>totalSent := totalSent st + bufferPos st, bufferPos := 0,
                               sequenceNum := sequenceNum st + 1\<rparr>))))))))))"

lemma flushBuffer_bufferPos:
  "flushBuffer devType partId isFinal st s = (Inr st', s') \<Longrightarrow> bufferPos st' = 0"
  by (auto simp: flushBuffer_def io_bind_def io_return_def Let_def
           split: if_splits prod.splits sum.splits)

text \<open>
  The loop of the callback, \<open>while (blockOffset < decompressedBlock.length)\<close>: copy what
  fits into the send buffer and flush the buffer when it is full.
\<close>

function append_block ::
  "int \<Rightarrow> int \<Rightarrow> u8 list \<Rightarrow> nat \<Rightarrow> stream_state \<Rightarrow> stream_state io" where
  "append_block devType partId decompressedBlock blockOffset st s =
     (if blockOffset < length decompressedBlock then
        (let copySize = min (SEND_BUFFER_SIZE - bufferPos st)
                          (length decompressedBlock - blockOffset)
         in case u8_set (sendBuffer st)
                   (u8_slice decompressedBlock blockOffset (blockOffset + copySize))
                   (bufferPos st) of
              None \<Rightarrow> (Inl RangeError, s)
            | Some buf \<Rightarrow>
                let st1 = st\<lparr>sendBuffer := buf, bufferPos := bufferPos st + copySize\<rparr>
                in if bufferPos st1 \<ge> SEND_BUFFER_SIZE then
                     (case flushBuffer devType partId False st1 s of
                        (Inl e, s') \<Rightarrow> (Inl e, s')
                      | (Inr st2, s') \<Rightarrow>
                          append_block devType partId decompressedBlock (blockOffset + copySize)
                            st2 s')
                   else append_block devType partId decompressedBlock (blockOffset + copySize)
                          st1 s)
      else (Inr st, s))"
  by pat_completeness auto
termination
proof (relation "measures [\<lambda>(devType, partId, decompressedBlock, blockOffset, st, s).
                               length decompressedBlock - blockOffset,
                           \<lambda>(devType, partId, decompressedBlock, blockOffset, st, s).
                               if bufferPos st \<ge> SEND_BUFFER_SIZE then 1 else 0]",
       goal_cases)
  case 1
  show ?case by simp
next
  case (2 devType partId decompressedBlock blockOffset st s x2 x xa y x1 st2)
  then have "bufferPos st2 = 0" by (auto dest: sym flushBuffer_bufferPos)
  with 2 show ?case by (auto simp: SEND_BUFFER_SIZE_def)
next
  case 3
  then show ?case by auto
qed

declare append_block.simps [simp del]

definition onChunk :: "int \<Rightarrow> int \<Rightarrow> u8 list \<Rightarrow> stream_state \<Rightarrow> stream_state io" where
  "onChunk devType partId decompressedBlock st =
     append_block devType partId decompressedBlock 0
       (st\<lparr>totalDecompressed := totalDecompressed st + length decompressedBlock\<rparr>)"

text \<open>
  The body of the \<open>try\<close> of \<open>transferFileStreamingLZ4\<close>: the decoder runs with the
  callback, then what is left in the send buffer is flushed as the final sequence. The
  result is the state of the closures' variables at the end.
\<close>

definition stream_initial :: stream_state where
  "stream_initial =
     \<lparr> sendBuffer = replicate SEND_BUFFER_SIZE 0, bufferPos = 0, totalDecompressed = 0,
       totalSent = 0, sequenceNum = 0 \<rparr>"

definition decompress_and_flush :: "FirmwareItem \<Rightarrow> int \<Rightarrow> int \<Rightarrow> stream_state io" where
  "decompress_and_flush item partId devType =
     io_bind
       (decompressStreaming (the (fileHandle (info item))) (the (itemFileOffset (info item)))
          (actualSize (info item)) (onChunk devType partId) stream_initial) (\<lambda>(total, st).
       if bufferPos st > 0 then flushBuffer devType partId True st
       else io_return st)"

text \<open>
  \<open>transferFileStreamingLZ4(item, partitionId, deviceType)\<close>. An error of the decoder or
  of a flush is thrown again as \<open>Streaming decompression failed\<close>.
\<close>

definition transferFileStreamingLZ4 :: "FirmwareItem \<Rightarrow> int \<Rightarrow> int \<Rightarrow> bool io" where
  "transferFileStreamingLZ4 item partId devType =
     io_bind activate_transfer (\<lambda>_.
     io_bind
       (io_catch (decompress_and_flush item partId devType)
          (\<lambda>error. io_throw (Error ''Streaming decompression failed'')))
       (\<lambda>_. io_return True))"

section \<open>\<open>transferFile\<close>\<close>

text \<open>
  \<open>item.info.partition_id || 0\<close> and \<open>item.info.device_type || 2\<close>: a value that is
  \<open>undefined\<close> or 0 gives the default.
\<close>

definition partId_of :: "FirmwareItem \<Rightarrow> int" where
  "partId_of item = (case partition_id (info item) of None \<Rightarrow> 0 | Some v \<Rightarrow> v)"

definition devType_of :: "FirmwareItem \<Rightarrow> int" where
  "devType_of item =
     (case device_type (info item) of None \<Rightarrow> 2 | Some v \<Rightarrow> if v = 0 then 2 else v)"

definition transferFile :: "libraries \<Rightarrow> FirmwareItem \<Rightarrow> bool io" where
  "transferFile libs item =
     (case locate_data item of
        Inl e \<Rightarrow> io_throw e
      | Inr (dat, file_size) \<Rightarrow>
          (case handle_compression libs item dat file_size of
             Inl e \<Rightarrow> io_throw e
           | Inr (dat, file_size, isStreamingCompressed) \<Rightarrow>
               let partId = partId_of item;
                   devType = devType_of item
               in if isStreamingCompressed
                  then transferFileStreamingLZ4 (item\<lparr>info := (info item)\<lparr>useStreamingLZ4 := True\<rparr>\<rparr>)
                         partId devType
                  else transfer_sequences item dat file_size devType partId))"

section \<open>Matching members to the PIT and uploading them (download-engine.js)\<close>

text \<open>
  \<open>String.prototype.toLowerCase\<close> on the code units below 256: the letters A to Z, and
  the capital letters of Latin-1 (192 to 222 without the multiplication sign 215).
\<close>

definition toLowerCase_unit :: "char \<Rightarrow> char" where
  "toLowerCase_unit c =
     (let n = (of_char c :: nat)
      in if (65 \<le> n \<and> n \<le> 90) \<or> (192 \<le> n \<and> n \<le> 222 \<and> n \<noteq> 215)
         then char_of (n + 32) else c)"

definition toLowerCase :: "string \<Rightarrow> string" where
  "toLowerCase str = map toLowerCase_unit str"

text \<open>
  \<open>str.replace(pattern, replacement)\<close> with a string as the pattern replaces the first
  occurrence only. (The replacements used here hold no \<open>$\<close>.)
\<close>

fun replace :: "string \<Rightarrow> string \<Rightarrow> string \<Rightarrow> string" where
  "replace [] pattern replacement = (if pattern = [] then replacement else [])"
| "replace (c # cs) pattern replacement =
     (if take (length pattern) (c # cs) = pattern
      then replacement @ drop (length pattern) (c # cs)
      else c # replace cs pattern replacement)"

definition fnameBase_of :: "string \<Rightarrow> string" where
  "fnameBase_of fname =
     replace (replace (replace (replace fname ''.lz4'' '''') ''.gz'' '''') ''.img'' '''') ''.bin'' ''''"

definition flashNameBase_of :: "string \<Rightarrow> string" where
  "flashNameBase_of flashName = replace (replace flashName ''.img'' '''') ''.bin'' ''''"

text \<open>The condition of the \<open>if\<close> inside the loop over the PIT entries.\<close>

definition entry_matches :: "string \<Rightarrow> string \<Rightarrow> PitEntry \<Rightarrow> bool" where
  "entry_matches fname fnameBase entry =
     (let partName = toLowerCase (partitionName entry);
          flashName = toLowerCase (flashFilename entry);
          flashNameBase = flashNameBase_of flashName
      in fname = flashName \<or>
         fnameBase = flashNameBase \<or>
         fnameBase = partName \<or>
         replace fnameBase ''-'' ''_'' = replace partName ''-'' ''_'')"

text \<open>\<open>for (const entry of pit.entries)\<close>, left by \<open>break\<close> at the first match.\<close>

fun match_entries :: "string \<Rightarrow> string \<Rightarrow> PitEntry list \<Rightarrow> PitEntry option" where
  "match_entries fname fnameBase [] = None"
| "match_entries fname fnameBase (entry # rest) =
     (if entry_matches fname fnameBase entry then Some entry
      else match_entries fname fnameBase rest)"

text \<open>
  The body of the loop over the items when there is a PIT. A value is falsy when it is
  \<open>undefined\<close> or 0.
\<close>

definition match_item :: "PitEntry list \<Rightarrow> FirmwareItem \<Rightarrow> FirmwareItem" where
  "match_item pit_entries item =
     (let fname = toLowerCase (filename item);
          fnameBase = fnameBase_of fname
      in case match_entries fname fnameBase pit_entries of
           Some entry \<Rightarrow>
             item\<lparr>info := (info item)\<lparr>partition_id := Some (partitionId entry),
                                         device_type := Some (deviceType entry)\<rparr>\<rparr>
         | None \<Rightarrow>
             if device_type (info item) = None \<or> device_type (info item) = Some 0
             then item\<lparr>info := (info item)\<lparr>device_type := Some 2\<rparr>\<rparr>
             else item)"

text \<open>The body of the loop over the items when there is no PIT.\<close>

definition detect_from_filename :: "FirmwareItem \<Rightarrow> FirmwareItem" where
  "detect_from_filename item =
     (let fname = toLowerCase (filename item);
          ids = (\<lambda>p d. item\<lparr>info := (info item)\<lparr>partition_id := Some p, device_type := Some d\<rparr>\<rparr>)
      in if str_includes fname ''boot'' \<and> \<not> str_includes fname ''recovery'' then ids 3 2
         else if str_includes fname ''recovery'' then ids 10 2
         else if str_includes fname ''sboot'' \<or> startsWith fname ''bl'' \<or>
                 str_includes fname ''bootloader'' then ids 80 2
         else if str_includes fname ''modem'' \<or> str_includes fname ''radio'' \<or>
                 str_includes fname ''cp'' then ids 11 2
         else
           item\<lparr>info := (info item)
             \<lparr>partition_id :=
                (if partition_id (info item) = None \<or> partition_id (info item) = Some 0
                 then Some 0 else partition_id (info item)),
              device_type :=
                (if device_type (info item) = None \<or> device_type (info item) = Some 0
                 then Some 2 else device_type (info item))\<rparr>\<rparr>)"

text \<open>
  The transfer loop of \<open>uploadBinaries\<close>. An item is passed over when it has neither data
  nor a file, when its data is empty, and when its name contains \<open>meta-data/\<close> or ends in
  \<open>.zip\<close>; every other item goes to \<open>transferFile\<close>. (A \<open>Uint8Array\<close> is truthy even
  when it is empty.)
\<close>

fun transfer_items :: "libraries \<Rightarrow> FirmwareItem list \<Rightarrow> unit io" where
  "transfer_items libs [] s = (Inr (), s)"
| "transfer_items libs (item # rest) s =
     (if data item = None \<and> \<not> isLargeFile (info item) then transfer_items libs rest s
      else if data item \<noteq> None \<and> length (the (data item)) = 0 then transfer_items libs rest s
      else if str_includes (filename item) ''meta-data/'' \<or> endsWith (filename item) ''.zip''
        then transfer_items libs rest s
      else
        (case transferFile libs item s of
           (Inl e, s') \<Rightarrow> (Inl e, s')
         | (Inr success, s') \<Rightarrow>
             if \<not> success then (Inl (Error ''Failed to transfer''), s')
             else transfer_items libs rest s'))"

text \<open>
  The loaded firmware, \<open>firmwareData\<close>; its fields \<open>items\<close>, \<open>pitData\<close> and \<open>md5Hash\<close>
  carry the prefix \<open>fw_\<close> here.
\<close>

record FirmwareData =
  fw_items :: "FirmwareItem list"
  fw_pitData :: "u8 list option"
  fw_md5Hash :: "string option"

definition uploadBinaries :: "libraries \<Rightarrow> FirmwareData \<Rightarrow> u8 list option \<Rightarrow> bool io" where
  "uploadBinaries libs firmwareData pit_bytes =
     (case pit_bytes of
        Some bytes \<Rightarrow>
          (case parse bytes of
             Inl PitTooSmall \<Rightarrow> io_throw (Error ''PIT data too small'')
           | Inl (InvalidPitMagic m) \<Rightarrow> io_throw (Error ''Invalid PIT magic'')
           | Inr pit \<Rightarrow>
               io_bind (transfer_items libs (map (match_item (entries pit)) (fw_items firmwareData)))
                 (\<lambda>_. io_return True))
      | None \<Rightarrow>
          io_bind (transfer_items libs (map detect_from_filename (fw_items firmwareData)))
            (\<lambda>_. io_return True))"

section \<open>Reading a TAR archive that is in memory (app.js)\<close>

text \<open>
  \<open>TypedArray.prototype.slice(start, end)\<close> in full: a negative index counts from the
  end of the array.
\<close>

definition js_slice :: "u8 list \<Rightarrow> int \<Rightarrow> int \<Rightarrow> u8 list" where
  "js_slice arr start end =
     (let len = int (length arr);
          from = (if start < 0 then max (len + start) 0 else min start len);
          to = (if end < 0 then max (len + end) 0 else min end len)
      in take (nat (to - from)) (drop (nat from) arr))"

text \<open>\<open>String.prototype.trim\<close>: the white space among the code units below 256.\<close>

definition is_space :: "char \<Rightarrow> bool" where
  "is_space c \<longleftrightarrow> (of_char c :: nat) \<in> {9, 10, 11, 12, 13, 32, 160}"

definition trim :: "string \<Rightarrow> string" where
  "trim str = rev (dropWhile is_space (rev (dropWhile is_space str)))"

text \<open>
  \<open>parseInt(str, 8)\<close>: leading white space, a sign, then the longest run of octal digits;
  \<open>NaN\<close> (\<open>None\<close>) when there is no digit.
\<close>

definition is_octal :: "char \<Rightarrow> bool" where
  "is_octal c \<longleftrightarrow> 48 \<le> (of_char c :: nat) \<and> (of_char c :: nat) \<le> 55"

definition parseInt8 :: "string \<Rightarrow> int option" where
  "parseInt8 str =
     (let s = dropWhile is_space str;
          (sign, s) = (case s of
                         c # rest \<Rightarrow> if c = CHR ''-'' then (- 1, rest)
                                    else if c = CHR ''+'' then (1, rest) else (1, s)
                       | [] \<Rightarrow> (1, s));
          digits = takeWhile is_octal s
      in if digits = [] then None
         else Some (sign * foldl (\<lambda>a c. 8 * a + (int (of_char c) - 48)) 0 digits))"

definition arrayStartsWith :: "u8 list \<Rightarrow> u8 list \<Rightarrow> bool" where
  "arrayStartsWith array pattern \<longleftrightarrow>
     \<not> length array < length pattern \<and> take (length pattern) array = pattern"

definition detectCompressionType :: "u8 list \<Rightarrow> string" where
  "detectCompressionType bytes =
     (if arrayStartsWith bytes [0x1F, 0x8B] then ''gzip''
      else if arrayStartsWith bytes [0x04, 0x22, 0x4D, 0x18] then ''lz4''
      else ''none'')"

text \<open>The item \<open>parseTARData\<close> makes for a member.\<close>

definition tar_item :: "string \<Rightarrow> u8 list \<Rightarrow> FirmwareItem" where
  "tar_item name fileData =
     (let compressionType = detectCompressionType fileData
      in \<lparr> filename = name, data = Some fileData,
           info = \<lparr> partition_id = None, device_type = None, isLargeFile = False,
                    fileHandle = None, itemFileOffset = None, actualSize = 0,
                    is_compressed = (compressionType \<noteq> ''none''),
                    compression_type = Some compressionType, useStreamingLZ4 = False \<rparr> \<rparr>)"

text \<open>
  \<open>parseTARData(data, firmwareData)\<close>, \<open>while (offset < data.length)\<close>. A size field
  that reads as a negative number moves \<open>offset\<close> backwards, and the loop need not end:
  not returning is \<open>None\<close>. (\<open>tarSize\<close> is the variable \<open>size\<close> of the source.)
\<close>

partial_function (option) parseTARData_loop ::
  "u8 list \<Rightarrow> int \<Rightarrow> FirmwareData \<Rightarrow> FirmwareData option" where
  "parseTARData_loop tarData offset firmwareData =
     (if offset < int (length tarData) then
        (if offset + 512 > int (length tarData) then Some firmwareData
         else
           let header = js_slice tarData offset (offset + 512)
           in if list_all (\<lambda>i. i < length header \<and> header ! i = 0) [0..<512]
              then Some firmwareData
              else
                let name = trim (readString header 0 100);
                    sizeStr = trim (readString header 124 12)
                in case parseInt8 sizeStr of
                     None \<Rightarrow> parseTARData_loop tarData (offset + 512) firmwareData
                   | Some tarSize \<Rightarrow>
                       if name = [] then parseTARData_loop tarData (offset + 512) firmwareData
                       else
                         let fileData = js_slice tarData (offset + 512) (offset + 512 + tarSize);
                             item = tar_item name fileData;
                             fw1 = (if endsWith (toLowerCase name) ''.pit''
                                    then firmwareData\<lparr>fw_pitData := Some fileData\<rparr>
                                    else firmwareData);
                             fw2 = fw1\<lparr>fw_items := fw_items fw1 @ [item]\<rparr>;
                             paddedSize = - ((- tarSize) div 512) * 512
                         in parseTARData_loop tarData (offset + 512 + paddedSize) fw2)
      else Some firmwareData)"

declare parseTARData_loop.simps [code]

definition parseTARData :: "u8 list \<Rightarrow> FirmwareData \<Rightarrow> FirmwareData option" where
  "parseTARData tarData firmwareData = parseTARData_loop tarData 0 firmwareData"

section \<open>Reading a TAR archive that stays in its file (app.js)\<close>

text \<open>
  The item \<open>parseSingleTarFile\<close> makes for a member: no data, the file, and where the
  body of the member is in it.
\<close>

definition file_item :: "string \<Rightarrow> u8 list \<Rightarrow> nat \<Rightarrow> nat \<Rightarrow> FirmwareItem" where
  "file_item name file fileDataOffset tarSize =
     (let isCompressed = (endsWith (toLowerCase name) ''.lz4'' \<or>
                          endsWith (toLowerCase name) ''.gz'')
      in \<lparr> filename = name, data = None,
           info = \<lparr> partition_id = None, device_type = None, isLargeFile = True,
                    fileHandle = Some file, itemFileOffset = Some fileDataOffset,
                    actualSize = tarSize, is_compressed = isCompressed,
                    compression_type = Some ''none'', useStreamingLZ4 = False \<rparr> \<rparr>)"

text \<open>
  The loop of \<open>parseSingleTarFile(file, firmwareData)\<close>,
  \<open>while (currentOffset < tarEndOffset && filesFound < 1000)\<close>. \<open>tarEndOffset\<close> is the
  size of the file, or, for a file whose name ends in \<open>.md5\<close> and whose last 512 bytes
  hold an MD5 line, the place of that line; it is a parameter here. A header without a
  name, or with a size that is not a number or is negative, is passed over. The result is
  \<open>filesFound\<close> and the firmware; \<open>pitData\<close> is never assigned.
\<close>

function parseSingleTarFile_loop ::
  "u8 list \<Rightarrow> nat \<Rightarrow> nat \<Rightarrow> nat \<Rightarrow> FirmwareData \<Rightarrow> nat \<times> FirmwareData" where
  "parseSingleTarFile_loop file tarEndOffset currentOffset filesFound firmwareData =
     (if currentOffset < tarEndOffset \<and> filesFound < 1000 then
        (if currentOffset + 512 > length file then (filesFound, firmwareData)
         else
           let headerData = blob_slice file currentOffset (currentOffset + 512)
           in if list_all (\<lambda>i. i < length headerData \<and> headerData ! i = 0) [0..<512]
              then (filesFound, firmwareData)
              else
                let name = trim (readString headerData 0 100);
                    sizeStr = trim (readString headerData 124 12)
                in case parseInt8 sizeStr of
                     None \<Rightarrow>
                       parseSingleTarFile_loop file tarEndOffset (currentOffset + 512)
                         filesFound firmwareData
                   | Some tarSize \<Rightarrow>
                       if name = [] \<or> tarSize < 0 then
                         parseSingleTarFile_loop file tarEndOffset (currentOffset + 512)
                           filesFound firmwareData
                       else
                         let fileDataOffset = currentOffset + 512;
                             item = file_item name file fileDataOffset (nat tarSize);
                             fw1 = firmwareData\<lparr>fw_items := fw_items firmwareData @ [item]\<rparr>;
                             paddedSize = nat (- ((- tarSize) div 512) * 512)
                         in parseSingleTarFile_loop file tarEndOffset
                              (currentOffset + 512 + paddedSize) (filesFound + 1) fw1)
      else (filesFound, firmwareData))"
  by pat_completeness auto
termination
  by (relation "measure (\<lambda>(file, tarEndOffset, currentOffset, filesFound, firmwareData).
                           tarEndOffset - currentOffset)") auto

declare parseSingleTarFile_loop.simps [simp del]

definition parseSingleTarFile :: "u8 list \<Rightarrow> nat \<Rightarrow> FirmwareData \<Rightarrow> nat \<times> FirmwareData" where
  "parseSingleTarFile file tarEndOffset firmwareData =
     parseSingleTarFile_loop file tarEndOffset 0 0 firmwareData"

section \<open>Notions for the statements about matching\<close>

text \<open>Normalizing every \<open>-\<close> of a name to \<open>_\<close>.\<close>

definition normalize_hyphens :: "string \<Rightarrow> string" where
  "normalize_hyphens str = map (\<lambda>c. if c = CHR ''-'' then CHR ''_'' else c) str"

text \<open>
  The four rules, on lower-cased names: the member name \<open>n\<close> equals the flash file name;
  \<open>base(n)\<close> equals the flash file name without its \<open>.img\<close> and \<open>.bin\<close>; \<open>base(n)\<close>
  equals the partition name; \<open>base(n)\<close> and the partition name are equal once every \<open>-\<close>
  is normalized to \<open>_\<close>. \<open>base\<close> is \<open>fnameBase_of\<close>, which removes the first
  \<open>.lz4\<close>, \<open>.gz\<close>, \<open>.img\<close> and \<open>.bin\<close> of the name, in this order.
\<close>

definition satisfies_rule :: "string \<Rightarrow> PitEntry \<Rightarrow> bool" where
  "satisfies_rule n e \<longleftrightarrow>
     toLowerCase n = toLowerCase (flashFilename e) \<or>
     fnameBase_of (toLowerCase n) = flashNameBase_of (toLowerCase (flashFilename e)) \<or>
     fnameBase_of (toLowerCase n) = toLowerCase (partitionName e) \<or>
     normalize_hyphens (fnameBase_of (toLowerCase n)) =
       normalize_hyphens (toLowerCase (partitionName e))"

text \<open>An item as the archive readers make it, before any matching.\<close>

definition plain_item :: "string \<Rightarrow> u8 list \<Rightarrow> FirmwareItem" where
  "plain_item name bytes =
     \<lparr> filename = name, data = Some bytes,
       info = \<lparr> partition_id = None, device_type = None, isLargeFile = False,
                fileHandle = None, itemFileOffset = None, actualSize = 0,
                is_compressed = False, compression_type = Some ''none'',
                useStreamingLZ4 = False \<rparr> \<rparr>"

definition named_entry :: "string \<Rightarrow> string \<Rightarrow> int \<Rightarrow> PitEntry" where
  "named_entry pname flash pid =
     example_entry\<lparr>partitionName := pname, flashFilename := flash, partitionId := pid\<rparr>"

text \<open>Whether an item carries a PIT file name, as \<open>parseTARData\<close> tests it.\<close>

definition is_pit_item :: "FirmwareItem \<Rightarrow> bool" where
  "is_pit_item item \<longleftrightarrow> endsWith (toLowerCase (filename item)) ''.pit''"

text \<open>A device that acknowledges everything with the reply \<open>(102, 0)\<close>.\<close>

definition ack_device :: usb where
  "ack_device = scripted (\<lambda>n. Data (structPack ''<II'' [102, 0]))"

definition no_libraries :: libraries where
  "no_libraries = \<lparr> pako_inflate = None, lz4_decode = None \<rparr>"

section \<open>Notions for the statements about the members that are passed over\<close>

text \<open>
  The body of the last item with a PIT file name among \<open>items\<close>, and \<open>before\<close> when
  there is none.
\<close>

definition last_pit_body :: "FirmwareItem list \<Rightarrow> u8 list option \<Rightarrow> u8 list option" where
  "last_pit_body items before =
     (case filter is_pit_item items of
        [] \<Rightarrow> before
      | p # ps \<Rightarrow> data (last (p # ps)))"

definition empty_firmware :: FirmwareData where
  "empty_firmware = \<lparr> fw_items = [], fw_pitData = None, fw_md5Hash = None \<rparr>"

text \<open>
  A TAR header block with a name and a size field of one octal digit, and a member: the
  header, the body, and zeros up to the next multiple of 512.
\<close>

definition tar_header :: "string \<Rightarrow> u8 \<Rightarrow> u8 list" where
  "tar_header name digit =
     TextEncoder_encode name @ replicate (124 - length name) 0 @ [digit] @ replicate 387 0"

definition tar_member :: "string \<Rightarrow> u8 \<Rightarrow> u8 list \<Rightarrow> u8 list" where
  "tar_member name digit body = tar_header name digit @ body @ replicate (512 - length body) 0"

text \<open>An archive with the single member \<open>x.pit\<close> of three bytes.\<close>

definition pit_tar :: "u8 list" where
  "pit_tar = tar_member ''x.pit'' 0x33 [1, 2, 3]"

text \<open>An archive with the single member \<open>e.img\<close> of no bytes: its header alone.\<close>

definition empty_member_tar :: "u8 list" where
  "empty_member_tar = tar_header ''e.img'' 0x30"

text \<open>A PIT with one entry, for partition 7, whose flash file name is \<open>x.pit\<close>.\<close>

definition x_pit_table :: PitData where
  "x_pit_table = \<lparr> magic = PIT_MAGIC, count = 1, entries = [named_entry ''X'' ''x.pit'' 7] \<rparr>"

text \<open>
  The tests of the transfer loop of \<open>uploadBinaries\<close> that pass an item over: neither
  data nor a file, data of length zero, and the two tests on the name.
\<close>

definition passed_over :: "FirmwareItem \<Rightarrow> bool" where
  "passed_over item \<longleftrightarrow>
     (data item = None \<and> \<not> isLargeFile (info item)) \<or>
     (data item \<noteq> None \<and> length (the (data item)) = 0) \<or>
     str_includes (filename item) ''meta-data/'' \<or> endsWith (filename item) ''.zip''"

section \<open>The flasher (class \<open>OdinFlasher\<close>, list-files.ps1)\<close>

text \<open>
  \<open>connectDevice\<close>, from the point where \<open>UsbDevice.connect\<close> has returned \<open>true\<close> and
  the engine has been made: the handshake, then step 2, the request \<open>(100, 0, 4)\<close> for the
  protocol version, and step 3, the file part size \<open>(100, 5, 0x100000)\<close>, which is sent
  when the device gave a default packet size. (Finding the device and \<open>connect\<close> configure
  the browser's device and transfer nothing.) The result is the protocol version that is
  stored in \<open>deviceInfo\<close>.
\<close>

definition get_protocol_version :: "(int \<times> int) io" where
  "get_protocol_version =
     io_bind (send_command (structPack ''<III'' [100, 0, 4])) (\<lambda>_.
     io_bind (usb_read 64 60) (\<lambda>resp.
       if length resp < 8
       then io_throw (Error ''No valid response to protocol version request'')
       else
         let (cmd, dat) = structUnpack_II resp;
             version = uint (signed_drop_bit 16 (word_of_int dat :: 32 word) AND 0xFFFF);
             deviceDefaultPacketSize = uint ((word_of_int dat :: 32 word) AND 0xFFFF)
         in io_return (version, deviceDefaultPacketSize)))"

definition send_file_part_size :: "unit io" where
  "send_file_part_size =
     io_bind (send_command (structPack ''<III'' [100, 5, 0x100000])) (\<lambda>_.
     io_bind (usb_read 64 TIMEOUT_HANDSHAKE) (\<lambda>resp2.
       if length resp2 \<ge> 8 then
         (let (cmd2, result) = structUnpack_II resp2
          in if result \<noteq> 0 then io_throw (Error ''Device rejected file part size'')
             else io_return ())
       else io_return ()))"

definition connectDevice :: "int io" where
  "connectDevice =
     io_bind handshake (\<lambda>ok.
       if \<not> ok then io_throw (Error ''Failed handshake - device did not respond with LOKE'')
       else
         io_bind get_protocol_version (\<lambda>(version, deviceDefaultPacketSize).
         io_bind (if deviceDefaultPacketSize \<noteq> 0 then send_file_part_size else io_return ())
           (\<lambda>_. io_return version)))"

text \<open>
  \<open>flash\<close>: the total of the bytes to send. A member that stays in the archive file
  counts four times its size when its name ends in \<open>.lz4\<close> and three times when it ends
  in \<open>.gz\<close>.
\<close>

fun total_bytes :: "FirmwareItem list \<Rightarrow> int" where
  "total_bytes [] = 0"
| "total_bytes (item # rest) =
     (if str_includes (filename item) ''meta-data/'' \<or> endsWith (filename item) ''.zip'' then 0
      else if data item = None \<and> isLargeFile (info item) then
        (if endsWith (filename item) ''.lz4'' then int (actualSize (info item)) * 4
         else if endsWith (filename item) ''.gz'' then int (actualSize (info item)) * 3
         else int (actualSize (info item)))
      else (case data item of Some d \<Rightarrow> int (length d) | None \<Rightarrow> 0))
     + total_bytes rest"

text \<open>
  The command \<open>(100, 2)\<close> with the total as a 64-bit number at offset 8, in a new
  1024-byte buffer, and its reply.
\<close>

definition session_buffer :: "int \<Rightarrow> u8 list io" where
  "session_buffer totalBytes =
     (case u8_set (replicate 1024 0) (structPack ''<II'' [100, 2]) 0 of
        None \<Rightarrow> io_throw RangeError
      | Some buf \<Rightarrow>
          (case u8_set buf (structPack ''<Q'' [totalBytes]) 8 of
             None \<Rightarrow> io_throw RangeError
           | Some buf \<Rightarrow> io_return buf))"

definition begin_session :: "int \<Rightarrow> unit io" where
  "begin_session totalBytes =
     io_bind (session_buffer totalBytes) (\<lambda>buf.
     io_bind (usb_write (u8_slice buf 0 packetSize)) (\<lambda>_.
     io_bind (usb_read 64 TIMEOUT_TRANSFER) (\<lambda>resp.
       if length resp < 8 then io_throw (Error ''No response to 100/2 packet'')
       else let (respCmd, respData) = structUnpack_II resp
            in if respCmd \<noteq> 100 \<or> respData \<noteq> 0
               then io_throw (Error ''Device rejected 100/2'')
               else io_return ())))"

text \<open>
  \<open>sendPitInfo\<close> sends nothing. \<open>sendPitData(pitData)\<close> writes the PIT as it is, in
  pieces of at most 1 MiB, and reads one reply; these writes are data, not commands. Any
  exception makes it return \<open>false\<close>.
\<close>

definition sendPitInfo :: "bool io" where
  "sendPitInfo = io_return True"

function send_pit_pieces :: "u8 list \<Rightarrow> nat \<Rightarrow> unit io" where
  "send_pit_pieces pitData offset s =
     (if offset < length pitData then
        (let pieceEnd = min (offset + 0x100000) (length pitData);
             chunk = u8_slice pitData offset pieceEnd
         in case usb_write chunk s of
              (Inl e, s') \<Rightarrow> (Inl e, s')
            | (Inr _, s') \<Rightarrow> send_pit_pieces pitData pieceEnd s')
      else (Inr (), s))"
  by pat_completeness auto
termination
  by (relation "measure (\<lambda>(pitData, offset, s). length pitData - offset)") auto

declare send_pit_pieces.simps [simp del]

definition sendPitData :: "u8 list \<Rightarrow> bool io" where
  "sendPitData pitData =
     io_catch
       (io_bind (send_pit_pieces pitData 0) (\<lambda>_.
        io_bind (usb_read 64 TIMEOUT_TRANSFER) (\<lambda>resp.
          if length resp \<ge> 8 then
            (let (cmd, result) = structUnpack_II resp in io_return (result = 0))
          else io_return True)))
       (\<lambda>error. io_return False)"

text \<open>
  The PIT that \<open>flash\<close> sends when it has one: the \<open>pitData\<close> it was called with, or
  else the PIT of the firmware (\<open>pit_sent\<close>, empty when there is none). The result of
  sending it is \<open>pitForMatching\<close>.
\<close>

definition pit_sent :: "u8 list option \<Rightarrow> FirmwareData \<Rightarrow> u8 list" where
  "pit_sent pitData firmwareData =
     (case pitData of
        Some p \<Rightarrow> p
      | None \<Rightarrow> (case fw_pitData firmwareData of Some p \<Rightarrow> p | None \<Rightarrow> []))"

definition send_available_pit :: "u8 list option \<Rightarrow> FirmwareData \<Rightarrow> u8 list option io" where
  "send_available_pit pitData firmwareData =
     (case pitData of
        Some p \<Rightarrow>
          io_bind (sendPitData p) (\<lambda>ok.
            if \<not> ok then io_throw (Error ''Failed to send PIT data'')
            else io_return (Some p))
      | None \<Rightarrow>
          (case fw_pitData firmwareData of
             Some p \<Rightarrow>
               io_bind (sendPitData p) (\<lambda>ok.
                 if \<not> ok then io_throw (Error ''Failed to send embedded PIT data'')
                 else io_return (Some p))
           | None \<Rightarrow> io_return None))"

text \<open>
  \<open>flash(firmwareData, pitData, reboot)\<close> on a flasher whose \<open>connectDevice\<close> has
  returned, with the protocol version that call stored (0 counts as 2). Up to version 3 the
  PIT that is matched against is the one received from the device. An exception of
  \<open>closeConnection\<close> or \<open>rebootDevice\<close> is caught.
\<close>

definition flash ::
  "libraries \<Rightarrow> FirmwareData \<Rightarrow> u8 list option \<Rightarrow> bool \<Rightarrow> int \<Rightarrow> bool io" where
  "flash libs firmwareData pitData reboot storedVersion =
     io_bind (begin_session (total_bytes (fw_items firmwareData))) (\<lambda>_.
     let protocolVersion = (if storedVersion = 0 then 2 else storedVersion)
     in io_bind
          (if protocolVersion \<le> 3 then
             io_bind sendPitInfo (\<lambda>ok.
               if \<not> ok then io_throw (Error ''sendPitInfo failed'')
               else
                 io_bind (send_available_pit pitData firmwareData) (\<lambda>_.
                 io_bind receivePitData (\<lambda>pit. io_return (Some pit))))
           else send_available_pit pitData firmwareData) (\<lambda>pitForMatching.
        io_bind (uploadBinaries libs firmwareData pitForMatching) (\<lambda>ok.
          if \<not> ok then io_throw (Error ''Failed to upload firmware binaries'')
          else
            io_bind (io_catch closeConnection (\<lambda>error. io_return ())) (\<lambda>_.
            io_bind (if reboot then io_catch rebootDevice (\<lambda>error. io_return ())
                     else io_return ()) (\<lambda>_.
              io_return True)))))"

section \<open>Notions for the statements about what is written to the transport\<close>

text \<open>
  A command frame as it is on the wire: \<open>packetSize\<close> bytes, the command number 100, 101,
  102 or 103 in the first field, and nothing but zeros after the fields. The finalizer
  \<open>(102, 3)\<close> has eight fields (32 bytes), the session total \<open>(100, 2)\<close> two fields and a
  64-bit number (16 bytes); every other command has three fields (12 bytes).
\<close>

definition command_frame :: "u8 list \<Rightarrow> bool" where
  "command_frame w \<longleftrightarrow>
     length w = packetSize \<and>
     LEToNumber w 0 4 \<in> {100, 101, 102, 103} \<and>
     (let fields = (if LEToNumber w 0 4 = 102 \<and> LEToNumber w 4 4 = 3 then 32
                    else if LEToNumber w 0 4 = 100 \<and> LEToNumber w 4 4 = 2 then 16
                    else 12)
      in drop fields w = replicate (packetSize - fields) 0)"

text \<open>
  What the operations that send commands may hand to \<open>transferOut\<close>: an empty transfer, a
  chunk of 65536 bytes of data (\<open>write\<close> splits a data block of \<open>fileTransferPacketSize\<close>
  bytes into two), or a command frame.
\<close>

definition wire_ok :: "u8 list \<Rightarrow> bool" where
  "wire_ok w \<longleftrightarrow> w = [] \<or> length w = 65536 \<or> command_frame w"

text \<open>
  The state \<open>s'\<close> continues \<open>s\<close> with such transfers only, or with transfers from the
  list \<open>payload\<close>; and an operation does so from every state, whether it returns or
  throws. \<open>payload\<close> names the data that an operation sends as it is, with no command
  around it: the four bytes of the handshake, and the last piece of a PIT that is sent to
  the device. For the operations that send nothing of the kind it is empty.
\<close>

definition extends_ok :: "u8 list list \<Rightarrow> usb \<Rightarrow> usb \<Rightarrow> bool" where
  "extends_ok payload s s' \<longleftrightarrow>
     take (length (sent s)) (sent s') = sent s \<and>
     list_all (\<lambda>w. wire_ok w \<or> w \<in> set payload) (drop (length (sent s)) (sent s'))"

definition sends_ok :: "u8 list list \<Rightarrow> 'a io \<Rightarrow> usb \<Rightarrow> bool" where
  "sends_ok payload operation s \<longleftrightarrow> extends_ok payload s (snd (operation s))"

text \<open>
  What is left of a PIT after its chunks of 65536 bytes: \<open>sendPitData\<close> cuts the PIT into
  pieces of 1 MiB and \<open>write\<close> cuts a piece into chunks of 64 KiB.
\<close>

definition pit_tail :: "u8 list \<Rightarrow> u8 list" where
  "pit_tail pitData = drop (65536 * (length pitData div 65536)) pitData"

text \<open>A device that answers every read with the reply \<open>(100, 0)\<close>.\<close>

definition session_device :: usb where
  "session_device = scripted (\<lambda>n. Data (structPack ''<II'' [100, 0]))"

section \<open>The little-endian codec round-trips\<close>

lemma length_numberToLE [simp]: "length (numberToLE v n) = n"
  by (simp add: numberToLE_def)

lemma upt4: "[0..<4] = [0,1,2,3]" by (simp add: upt_rec)
lemma upt2: "[0..<2] = [0,1]" by (simp add: upt_rec)
lemma upt1: "[0..<1] = [0]" by (simp add: upt_rec)

lemma ff_mask: "(255 :: 32 word) = mask 8" by (simp add: mask_eq_exp_minus_1)

lemma le4w: "fold (\<lambda>i num. num OR push_bit ((i * 8) mod 32) (byte_at (numberToLE v 4) (0 + i))) [0..<4] (0 :: 32 word) = word_of_int v"
proof -
  define x :: "32 word" where "x = word_of_int v"
  show ?thesis
    unfolding numberToLE_def byte_at_def upt4 x_def[symmetric] ff_mask
    apply simp
    apply (rule bit_word_eqI)
    subgoal for n
      apply (cases "n < 8"; cases "n < 16"; cases "n < 24")
      apply (auto simp add: bit_simps)
      done
    done
qed

lemma le2w: "fold (\<lambda>i num. num OR push_bit ((i * 8) mod 32) (byte_at (numberToLE v 2) (0 + i))) [0..<2] (0 :: 32 word) = word_of_int v AND mask 16"
proof -
  define x :: "32 word" where "x = word_of_int v"
  show ?thesis
    unfolding numberToLE_def byte_at_def upt2 x_def[symmetric] ff_mask
    apply simp
    apply (rule bit_word_eqI)
    apply (auto simp add: bit_simps)
    done
qed

lemma le1w: "fold (\<lambda>i num. num OR push_bit ((i * 8) mod 32) (byte_at (numberToLE v 1) (0 + i))) [0..<1] (0 :: 32 word) = word_of_int v AND mask 8"
proof -
  define x :: "32 word" where "x = word_of_int v"
  show ?thesis
    unfolding numberToLE_def byte_at_def upt1 x_def[symmetric] ff_mask
    apply simp
    apply (rule bit_word_eqI)
    apply (auto simp add: bit_simps)
    done
qed

lemma le4: "LEToNumber (numberToLE v 4) 0 4 = v mod 2 ^ 32"
  unfolding LEToNumber_def le4w by (simp add: uint_word_of_int)


lemma uint_mask16: "uint ((word_of_int v :: 32 word) AND mask 16) = v mod 2 ^ 16"
proof -
  have "uint ((word_of_int v :: 32 word) AND mask 16) = take_bit 16 (uint (word_of_int v :: 32 word))"
    by (simp add: unsigned_take_bit_eq flip: take_bit_eq_mask)
  also have "\<dots> = take_bit 16 (take_bit 32 v)"
    by (simp add: uint_word_of_int_eq)
  also have "\<dots> = take_bit 16 v"
    by simp
  also have "\<dots> = v mod 2 ^ 16"
    by (simp only: take_bit_eq_mod)
  finally show ?thesis .
qed

lemma uint_mask8: "uint ((word_of_int v :: 32 word) AND mask 8) = v mod 2 ^ 8"
proof -
  have "uint ((word_of_int v :: 32 word) AND mask 8) = take_bit 8 (uint (word_of_int v :: 32 word))"
    by (simp add: unsigned_take_bit_eq flip: take_bit_eq_mask)
  also have "\<dots> = take_bit 8 (take_bit 32 v)"
    by (simp add: uint_word_of_int_eq)
  also have "\<dots> = take_bit 8 v"
    by simp
  also have "\<dots> = v mod 2 ^ 8"
    by (simp only: take_bit_eq_mod)
  finally show ?thesis .
qed

lemma le2: "LEToNumber (numberToLE v 2) 0 2 = v mod 2 ^ 16"
  unfolding LEToNumber_def le2w by (rule uint_mask16)

lemma le1: "LEToNumber (numberToLE v 1) 0 1 = v mod 2 ^ 8"
  unfolding LEToNumber_def le1w by (rule uint_mask8)

lemma LEToNumber_cong:
  assumes "\<And>i. i < n \<Longrightarrow> byte_at a (oa + i) = byte_at b (ob + i)"
  shows "LEToNumber a oa n = LEToNumber b ob n"
proof -
  have "fold (\<lambda>i num. num OR push_bit ((i * 8) mod 32) (byte_at a (oa + i))) [0..<n] (0 :: 32 word)
      = fold (\<lambda>i num. num OR push_bit ((i * 8) mod 32) (byte_at b (ob + i))) [0..<n] 0"
    by (rule fold_cong) (auto simp: assms)
  then show ?thesis by (simp add: LEToNumber_def)
qed

lemma length_structPack_II [simp]: "length (structPack ''<II'' [a, b]) = 8"
  by (simp add: structPack_def Let_def)

lemma length_structPack_III [simp]: "length (structPack ''<III'' [a, b, c]) = 12"
  by (simp add: structPack_def Let_def)

lemma LEToNumber_structPack_II_0: "LEToNumber (structPack ''<II'' [a, b]) 0 4 = a mod 2 ^ 32"
proof -
  have "LEToNumber (structPack ''<II'' [a, b]) 0 4 = LEToNumber (numberToLE a 4) 0 4"
    by (rule LEToNumber_cong) (auto simp: structPack_def byte_at_def nth_append)
  then show ?thesis by (simp add: le4)
qed

lemma LEToNumber_structPack_II_4: "LEToNumber (structPack ''<II'' [a, b]) 4 4 = b mod 2 ^ 32"
proof -
  have "LEToNumber (structPack ''<II'' [a, b]) 4 4 = LEToNumber (numberToLE b 4) 0 4"
    by (rule LEToNumber_cong) (auto simp: structPack_def byte_at_def nth_append)
  then show ?thesis by (simp add: le4)
qed

text \<open>
  C10: for every integer \<open>v\<close> with \<open>0 \<le> v < 2^32\<close> and every width \<open>w\<close> of 1, 2 or 4
  bytes, writing \<open>v\<close> as \<open>w\<close> little-endian bytes with \<open>numberToLE\<close> and reading
  them back with \<open>LEToNumber\<close> at offset 0 gives \<open>v mod 2^(8 w)\<close>.
\<close>

theorem LE_round_trip:
  "0 \<le> v \<Longrightarrow> v < 2 ^ 32 \<Longrightarrow> w \<in> {1, 2, 4} \<Longrightarrow>
     LEToNumber (numberToLE v w) 0 w = v mod 2 ^ (8 * w)"
  using le1 [of v] le2 [of v] le4 [of v] by auto

theorem LE_round_trip_witness:
  "(0::int) \<le> 0x12349876 \<and> (0x12349876::int) < 2 ^ 32 \<and> (4::nat) \<in> {1, 2, 4} \<and>
     LEToNumber (numberToLE 0x12349876 4) 0 4 = 0x12349876 mod 2 ^ (8 * 4)"
  using LE_round_trip [of "0x12349876" 4] by simp

section \<open>The PIT codec\<close>

subsection \<open>Typed-array writes and the reads that depend on them\<close>

lemma u8_set_Some:
  "offset + length source \<le> length buffer \<Longrightarrow>
   u8_set buffer source offset = Some (take offset buffer @ source @ drop (offset + length source) buffer)"
  by (simp add: u8_set_def)

lemma u8_set_length:
  "u8_set buffer source offset = Some b' \<Longrightarrow> length b' = length buffer"
  by (auto simp: u8_set_def split: if_splits)

lemma u8_set_nth:
  "u8_set buffer source offset = Some b' \<Longrightarrow> i < length buffer \<Longrightarrow>
   b' ! i = (if offset \<le> i \<and> i < offset + length source then source ! (i - offset) else buffer ! i)"
  by (auto simp: u8_set_def nth_append split: if_splits)

lemma u8_set_ex:
  "offset + length source \<le> length buffer \<Longrightarrow> \<exists>b'. u8_set buffer source offset = Some b'"
  by (simp add: u8_set_def)

lemma LEToNumber_written:
  assumes "off + 4 \<le> length buf"
    and "\<And>i. i < 4 \<Longrightarrow> buf ! (off + i) = numberToLE v 4 ! i"
  shows "LEToNumber buf off 4 = LEToNumber (numberToLE v 4) 0 4"
  by (rule LEToNumber_cong) (use assms in \<open>auto simp: byte_at_def\<close>)

lemma readString_loop_written:
  assumes "\<And>i. i < length bs \<Longrightarrow> buf ! (pos + i) = bs ! i"
    and "buf ! (pos + length bs) = 0"
    and "pos + length bs < length buf"
    and "0 \<notin> set bs"
    and "length bs < m"
  shows "readString_loop buf pos m = map fromCharCode bs"
  using assms
proof (induction bs arbitrary: pos m)
  case Nil
  then show ?case by (cases m) auto
next
  case (Cons b bs)
  obtain m' where m: "m = Suc m'" using Cons.prems(5) by (cases m) auto
  have b: "buf ! pos = b" using Cons.prems(1)[of 0] by simp
  have "readString_loop buf (Suc pos) m' = map fromCharCode bs"
  proof (rule Cons.IH)
    fix i assume "i < length bs"
    then show "buf ! (Suc pos + i) = bs ! i" using Cons.prems(1)[of "Suc i"] by simp
  next
    show "buf ! (Suc pos + length bs) = 0" using Cons.prems(2) by simp
    show "Suc pos + length bs < length buf" using Cons.prems(3) by simp
    show "0 \<notin> set bs" using Cons.prems(4) by simp
    show "length bs < m'" using Cons.prems(5) m by simp
  qed
  moreover have "pos < length buf" using Cons.prems(3) by simp
  moreover have "b \<noteq> 0" using Cons.prems(4) by auto
  ultimately show ?case by (simp add: m b)
qed

lemma encode_unit_ascii:
  "(of_char c :: nat) < 128 \<Longrightarrow> encode_unit c = [of_nat (of_char c)]"
  by (simp add: encode_unit_def)

lemma encode_ascii:
  "ascii_string s \<Longrightarrow> TextEncoder_encode s = map (\<lambda>c. of_nat (of_char c)) s"
  by (induction s) (auto simp: TextEncoder_encode_def ascii_string_def encode_unit_ascii)

lemma fromCharCode_of_char:
  "fromCharCode (of_nat (of_char c :: nat)) = c"
  apply (simp add: fromCharCode_def unat_of_nat)
  done

lemma ascii_nonzero:
  assumes "ascii_string s"
  shows "(0 :: u8) \<notin> set (TextEncoder_encode s)"
proof
  assume "(0 :: u8) \<in> set (TextEncoder_encode s)"
  then obtain c where c: "c \<in> set s" and z: "(of_nat (of_char c) :: u8) = 0"
    using assms by (auto simp: encode_ascii)
  have r: "0 < (of_char c :: nat)" "(of_char c :: nat) < 128"
    using assms c by (auto simp: ascii_string_def list_all_iff)
  have "unat (of_nat (of_char c) :: u8) = of_char c"
    using r by (simp add: unat_of_nat)
  with z r show False by simp
qed

lemma ascii_round:
  "ascii_string s \<Longrightarrow> map fromCharCode (TextEncoder_encode s) = s"
  by (simp add: encode_ascii fromCharCode_of_char comp_def)

lemma ascii_length:
  "ascii_string s \<Longrightarrow> length (TextEncoder_encode s) = length s"
  by (simp add: encode_ascii)

lemma writeString_props:
  assumes wf: "wf_string str" and rng: "offset + 32 \<le> length buffer"
  shows "\<exists>b'. writeString buffer offset str 32 = Some b' \<and> length b' = length buffer \<and>
           (\<forall>i. i < length buffer \<longrightarrow> (i < offset \<or> offset + 32 \<le> i) \<longrightarrow> b' ! i = buffer ! i) \<and>
           readString b' offset 32 = str"
proof -
  let ?bytes = "TextEncoder_encode str"
  have asc: "ascii_string str" and len: "length str \<le> 31" using wf by (auto simp: wf_string_def)
  have lb: "length ?bytes = length str" using asc by (rule ascii_length)
  have tk: "take (min (length ?bytes) 31) ?bytes = ?bytes" using lb len by simp
  have mn: "min (length ?bytes) 31 = length str" using lb len by simp
  have tk': "take (length str) ?bytes = ?bytes" using lb by simp
  obtain b1 where b1: "u8_set buffer ?bytes offset = Some b1"
    using u8_set_ex[of offset ?bytes buffer] lb len rng by auto
  have l1: "length b1 = length buffer" using b1 by (rule u8_set_length)
  let ?b2 = "b1[offset + length str := 0]"
  have ws: "writeString buffer offset str 32 = Some ?b2"
    by (simp add: writeString_def Let_def tk tk' mn b1)
  have frame: "\<forall>i. i < length buffer \<longrightarrow> (i < offset \<or> offset + 32 \<le> i) \<longrightarrow> ?b2 ! i = buffer ! i"
    using len lb by (auto simp: u8_set_nth[OF b1] nth_list_update l1)
  have "readString_loop ?b2 offset 32 = map fromCharCode ?bytes"
  proof (rule readString_loop_written)
    fix i assume "i < length ?bytes"
    then show "?b2 ! (offset + i) = ?bytes ! i"
      using len lb rng by (simp add: u8_set_nth[OF b1] nth_list_update l1)
  next
    show "?b2 ! (offset + length ?bytes) = 0" using len lb rng by (simp add: l1)
    show "offset + length ?bytes < length ?b2" using len lb rng by (simp add: l1)
    show "0 \<notin> set ?bytes" using asc by (rule ascii_nonzero)
    show "length ?bytes < 32" using len lb by simp
  qed
  then have "readString ?b2 offset 32 = str" by (simp add: readString_def ascii_round[OF asc])
  with ws frame l1 show ?thesis by simp
qed


lemma same_outside_length: "same_outside b b' lo hi \<Longrightarrow> length b' = length b"
  by (simp add: same_outside_def)

lemma same_outside_trans:
  "same_outside b b' lo hi \<Longrightarrow> same_outside b' b'' lo' hi' \<Longrightarrow> lo'' \<le> lo \<Longrightarrow> lo'' \<le> lo' \<Longrightarrow>
   hi \<le> hi'' \<Longrightarrow> hi' \<le> hi'' \<Longrightarrow> same_outside b b'' lo'' hi''"
  by (auto simp: same_outside_def)

lemma same_outside_widen:
  "same_outside b b' lo hi \<Longrightarrow> lo' \<le> lo \<Longrightarrow> hi \<le> hi' \<Longrightarrow> same_outside b b' lo' hi'"
  by (auto simp: same_outside_def)

lemma LEToNumber_stable:
  assumes "same_outside b b' lo hi" and "off + n \<le> lo \<or> hi \<le> off"
  shows "LEToNumber b' off n = LEToNumber b off n"
  by (rule LEToNumber_cong) (use assms in \<open>auto simp: byte_at_def same_outside_def\<close>)

lemma readString_loop_cong:
  assumes "length a = length b" and "\<And>i. pos \<le> i \<Longrightarrow> i < pos + m \<Longrightarrow> i < length a \<Longrightarrow> a ! i = b ! i"
  shows "readString_loop a pos m = readString_loop b pos m"
  using assms by (induction m arbitrary: pos) auto

lemma readString_stable:
  assumes "same_outside b b' lo hi" and "off + m \<le> lo \<or> hi \<le> off"
  shows "readString b' off m = readString b off m"
  unfolding readString_def
  by (rule readString_loop_cong) (use assms in \<open>auto simp: same_outside_def\<close>)

lemma parseEntry_stable:
  assumes "same_outside b b' lo hi" and "off + 132 \<le> lo \<or> hi \<le> off"
  shows "parseEntry b' off = parseEntry b off"
  using assms
  by (auto simp: parseEntry_def intro!: LEToNumber_stable[OF assms(1)] readString_stable[OF assms(1)])

lemma field_write:
  assumes "off + 4 \<le> length b" and "is_u32 v"
  obtains b' where "u8_set b (numberToLE v 4) off = Some b'"
    and "same_outside b b' off (off + 4)" and "LEToNumber b' off 4 = v"
proof -
  obtain b' where b': "u8_set b (numberToLE v 4) off = Some b'"
    using u8_set_ex[of off "numberToLE v 4" b] assms(1) by auto
  have l: "length b' = length b" using b' by (rule u8_set_length)
  have so: "same_outside b b' off (off + 4)"
    by (auto simp: same_outside_def l u8_set_nth[OF b'])
  have "LEToNumber b' off 4 = LEToNumber (numberToLE v 4) 0 4"
    by (rule LEToNumber_written) (use assms(1) in \<open>auto simp: l u8_set_nth[OF b']\<close>)
  also have "\<dots> = v mod 2 ^ 32" by (rule le4)
  also have "\<dots> = v" using assms(2) by (simp add: is_u32_def)
  finally show ?thesis using that b' so by blast
qed

lemma string_write:
  assumes "off + 32 \<le> length b" and "wf_string str"
  obtains b' where "writeString b off str 32 = Some b'"
    and "same_outside b b' off (off + 32)" and "readString b' off 32 = str"
  using writeString_props[OF assms(2) assms(1)] unfolding same_outside_def by blast

subsection \<open>One entry\<close>

lemma serializeEntry_props:
  assumes rng: "off + 132 \<le> length b0" and wf: "wf_entry e"
  obtains b' where "serializeEntry e b0 off = Some b'"
    and "same_outside b0 b' off (off + 132)" and "parseEntry b' off = e"
proof -
  from wf have u: "is_u32 (binaryType e)" "is_u32 (deviceType e)" "is_u32 (partitionId e)"
    "is_u32 (partitionType e)" "is_u32 (filesystem e)" "is_u32 (startBlock e)"
    "is_u32 (numBlocks e)" "is_u32 (fileOffset e)" "is_u32 (fileSize e)"
    and w: "wf_string (partitionName e)" "wf_string (flashFilename e)" "wf_string (fotaFilename e)"
    by (auto simp: wf_entry_def)
  obtain b1 where s1: "u8_set b0 (numberToLE (binaryType e) 4) off = Some b1"
    and o1: "same_outside b0 b1 off (off + 4)" and r1: "LEToNumber b1 off 4 = binaryType e"
    using rng by (auto intro: field_write[OF _ u(1), of off b0])
  note l1 = same_outside_length[OF o1]
  obtain b2 where s2: "u8_set b1 (numberToLE (deviceType e) 4) (off + 4) = Some b2"
    and o2: "same_outside b1 b2 (off + 4) (off + 4 + 4)" and r2: "LEToNumber b2 (off + 4) 4 = deviceType e"
    using rng l1 by (auto intro: field_write[OF _ u(2), of "off + 4" b1])
  note l2 = same_outside_length[OF o2]
  obtain b3 where s3: "u8_set b2 (numberToLE (partitionId e) 4) (off + 8) = Some b3"
    and o3: "same_outside b2 b3 (off + 8) (off + 8 + 4)" and r3: "LEToNumber b3 (off + 8) 4 = partitionId e"
    using rng l1 l2 by (auto intro: field_write[OF _ u(3), of "off + 8" b2])
  note l3 = same_outside_length[OF o3]
  obtain b4 where s4: "u8_set b3 (numberToLE (partitionType e) 4) (off + 12) = Some b4"
    and o4: "same_outside b3 b4 (off + 12) (off + 12 + 4)" and r4: "LEToNumber b4 (off + 12) 4 = partitionType e"
    using rng l1 l2 l3 by (auto intro: field_write[OF _ u(4), of "off + 12" b3])
  note l4 = same_outside_length[OF o4]
  obtain b5 where s5: "u8_set b4 (numberToLE (filesystem e) 4) (off + 16) = Some b5"
    and o5: "same_outside b4 b5 (off + 16) (off + 16 + 4)" and r5: "LEToNumber b5 (off + 16) 4 = filesystem e"
    using rng l1 l2 l3 l4 by (auto intro: field_write[OF _ u(5), of "off + 16" b4])
  note l5 = same_outside_length[OF o5]
  obtain b6 where s6: "u8_set b5 (numberToLE (startBlock e) 4) (off + 20) = Some b6"
    and o6: "same_outside b5 b6 (off + 20) (off + 20 + 4)" and r6: "LEToNumber b6 (off + 20) 4 = startBlock e"
    using rng l1 l2 l3 l4 l5 by (auto intro: field_write[OF _ u(6), of "off + 20" b5])
  note l6 = same_outside_length[OF o6]
  obtain b7 where s7: "u8_set b6 (numberToLE (numBlocks e) 4) (off + 24) = Some b7"
    and o7: "same_outside b6 b7 (off + 24) (off + 24 + 4)" and r7: "LEToNumber b7 (off + 24) 4 = numBlocks e"
    using rng l1 l2 l3 l4 l5 l6 by (auto intro: field_write[OF _ u(7), of "off + 24" b6])
  note l7 = same_outside_length[OF o7]
  obtain b8 where s8: "u8_set b7 (numberToLE (fileOffset e) 4) (off + 28) = Some b8"
    and o8: "same_outside b7 b8 (off + 28) (off + 28 + 4)" and r8: "LEToNumber b8 (off + 28) 4 = fileOffset e"
    using rng l1 l2 l3 l4 l5 l6 l7 by (auto intro: field_write[OF _ u(8), of "off + 28" b7])
  note l8 = same_outside_length[OF o8]
  obtain b9 where s9: "u8_set b8 (numberToLE (fileSize e) 4) (off + 32) = Some b9"
    and o9: "same_outside b8 b9 (off + 32) (off + 32 + 4)" and r9: "LEToNumber b9 (off + 32) 4 = fileSize e"
    using rng l1 l2 l3 l4 l5 l6 l7 l8 by (auto intro: field_write[OF _ u(9), of "off + 32" b8])
  note l9 = same_outside_length[OF o9]
  obtain b10 where s10: "writeString b9 (off + 36) (partitionName e) 32 = Some b10"
    and o10: "same_outside b9 b10 (off + 36) (off + 36 + 32)" and r10: "readString b10 (off + 36) 32 = partitionName e"
    using rng l1 l2 l3 l4 l5 l6 l7 l8 l9 by (auto intro: string_write[OF _ w(1), of "off + 36" b9])
  note l10 = same_outside_length[OF o10]
  obtain b11 where s11: "writeString b10 (off + 68) (flashFilename e) 32 = Some b11"
    and o11: "same_outside b10 b11 (off + 68) (off + 68 + 32)" and r11: "readString b11 (off + 68) 32 = flashFilename e"
    using rng l1 l2 l3 l4 l5 l6 l7 l8 l9 l10 by (auto intro: string_write[OF _ w(2), of "off + 68" b10])
  note l11 = same_outside_length[OF o11]
  obtain b12 where s12: "writeString b11 (off + 100) (fotaFilename e) 32 = Some b12"
    and o12: "same_outside b11 b12 (off + 100) (off + 100 + 32)" and r12: "readString b12 (off + 100) 32 = fotaFilename e"
    using rng l1 l2 l3 l4 l5 l6 l7 l8 l9 l10 l11 by (auto intro: string_write[OF _ w(3), of "off + 100" b11])
  note l12 = same_outside_length[OF o12]
  have ser: "serializeEntry e b0 off = Some b12"
    by (simp add: serializeEntry_def s1 s2 s3 s4 s5 s6 s7 s8 s9 s10 s11 s12)
  have t1: "same_outside b0 b1 off (off + 132)"
    by (rule same_outside_widen[OF o1]) simp_all
  have t2: "same_outside b0 b2 off (off + 132)"
    by (rule same_outside_trans[OF t1 o2]) simp_all
  have t3: "same_outside b0 b3 off (off + 132)"
    by (rule same_outside_trans[OF t2 o3]) simp_all
  have t4: "same_outside b0 b4 off (off + 132)"
    by (rule same_outside_trans[OF t3 o4]) simp_all
  have t5: "same_outside b0 b5 off (off + 132)"
    by (rule same_outside_trans[OF t4 o5]) simp_all
  have t6: "same_outside b0 b6 off (off + 132)"
    by (rule same_outside_trans[OF t5 o6]) simp_all
  have t7: "same_outside b0 b7 off (off + 132)"
    by (rule same_outside_trans[OF t6 o7]) simp_all
  have t8: "same_outside b0 b8 off (off + 132)"
    by (rule same_outside_trans[OF t7 o8]) simp_all
  have t9: "same_outside b0 b9 off (off + 132)"
    by (rule same_outside_trans[OF t8 o9]) simp_all
  have t10: "same_outside b0 b10 off (off + 132)"
    by (rule same_outside_trans[OF t9 o10]) simp_all
  have t11: "same_outside b0 b11 off (off + 132)"
    by (rule same_outside_trans[OF t10 o11]) simp_all
  have t12: "same_outside b0 b12 off (off + 132)"
    by (rule same_outside_trans[OF t11 o12]) simp_all
  note so = t12
  note st = LEToNumber_stable[OF o1] LEToNumber_stable[OF o2] LEToNumber_stable[OF o3]
    LEToNumber_stable[OF o4] LEToNumber_stable[OF o5] LEToNumber_stable[OF o6]
    LEToNumber_stable[OF o7] LEToNumber_stable[OF o8] LEToNumber_stable[OF o9]
    LEToNumber_stable[OF o10] LEToNumber_stable[OF o11] LEToNumber_stable[OF o12]
    readString_stable[OF o11] readString_stable[OF o12]
  have "parseEntry b12 off = e"
    unfolding parseEntry_def
    by (simp add: st r1 r2 r3 r4 r5 r6 r7 r8 r9 r10 r11 r12)
  with ser so show ?thesis using that by blast
qed

subsection \<open>The entry loops\<close>

lemma serialize_entries_props:
  assumes "list_all wf_entry es" and "off + 132 * length es \<le> length b0"
  shows "\<exists>b'. serialize_entries es b0 off = Some b' \<and>
           same_outside b0 b' off (off + 132 * length es) \<and>
           (\<forall>j < length es. parseEntry b' (off + 132 * j) = es ! j)"
  using assms
proof (induction es arbitrary: b0 off)
  case Nil
  then show ?case by (simp add: same_outside_def)
next
  case (Cons e es)
  have wf: "wf_entry e" and wfs: "list_all wf_entry es" using Cons.prems(1) by auto
  have rng: "off + 132 \<le> length b0" using Cons.prems(2) by simp
  obtain b1 where s1: "serializeEntry e b0 off = Some b1"
    and o1: "same_outside b0 b1 off (off + 132)" and r1: "parseEntry b1 off = e"
    using serializeEntry_props[OF rng wf] by blast
  have l1: "length b1 = length b0" using o1 by (rule same_outside_length)
  have "off + 132 + 132 * length es \<le> length b1" using Cons.prems(2) l1 by simp
  from Cons.IH[OF wfs this]
  obtain b' where s2: "serialize_entries es b1 (off + 132) = Some b'"
    and o2: "same_outside b1 b' (off + 132) (off + 132 + 132 * length es)"
    and r2: "\<forall>j < length es. parseEntry b' (off + 132 + 132 * j) = es ! j"
    by blast
  have ser: "serialize_entries (e # es) b0 off = Some b'"
    by (simp add: s1 s2 PIT_ENTRY_SIZE_def)
  have so: "same_outside b0 b' off (off + 132 * length (e # es))"
    by (rule same_outside_trans[OF o1 o2]) simp_all
  have "parseEntry b' (off + 132 * j) = (e # es) ! j" if "j < length (e # es)" for j
  proof (cases j)
    case 0
    have "parseEntry b' off = parseEntry b1 off"
      by (rule parseEntry_stable[OF o2]) simp
    then show ?thesis using 0 r1 by simp
  next
    case (Suc j')
    then have "j' < length es" using that by simp
    with r2 have "parseEntry b' (off + 132 + 132 * j') = es ! j'" by blast
    then show ?thesis using Suc by (simp add: add.assoc)
  qed
  with ser so show ?case by blast
qed

lemma parse_entries_length:
  "length (parse_entries pitData cnt i offset acc) =
     length acc + min (nat (cnt - i)) ((length pitData - offset) div 132)"
proof (induction pitData cnt i offset acc rule: parse_entries.induct)
  case (1 pitData cnt i offset acc)
  show ?case
  proof (cases "i < cnt")
    case False
    then show ?thesis by (subst parse_entries.simps) simp
  next
    case True
    show ?thesis
    proof (cases "offset + PIT_ENTRY_SIZE > length pitData")
      case True
      then have "(length pitData - offset) div 132 = 0" by (simp add: PIT_ENTRY_SIZE_def)
      with True \<open>i < cnt\<close> show ?thesis by (subst parse_entries.simps) simp
    next
      case False
      then have ge: "offset + 132 \<le> length pitData" by (simp add: PIT_ENTRY_SIZE_def)
      have d: "(length pitData - offset) div 132 = Suc ((length pitData - (offset + 132)) div 132)"
        using ge le_div_geq[of 132 "length pitData - offset"] by (simp add: diff_diff_left [symmetric] del: diff_diff_left)
      have n: "nat (cnt - i) = Suc (nat (cnt - (i + 1)))" using \<open>i < cnt\<close> by simp
      have "length (parse_entries pitData cnt i offset acc)
          = length (parse_entries pitData cnt (i + 1) (offset + PIT_ENTRY_SIZE) (acc @ [parseEntry pitData offset]))"
        using \<open>i < cnt\<close> False by (subst parse_entries.simps) simp
      also have "\<dots> = length (acc @ [parseEntry pitData offset]) +
            min (nat (cnt - (i + 1))) ((length pitData - (offset + PIT_ENTRY_SIZE)) div 132)"
        by (rule "1.IH"[OF \<open>i < cnt\<close> False])
      finally show ?thesis by (simp add: d n PIT_ENTRY_SIZE_def)
    qed
  qed
qed

lemma parse_entries_all:
  assumes "28 + 132 * n \<le> length pitData"
  shows "i \<le> n \<Longrightarrow> parse_entries pitData (int n) (int i) (28 + 132 * i) acc =
           acc @ map (\<lambda>j. parseEntry pitData (28 + 132 * j)) [i..<n]"
proof (induction "n - i" arbitrary: i acc)
  case 0
  then show ?case by (subst parse_entries.simps) simp
next
  case (Suc k)
  then have lt: "i < n" by simp
  then have rng: "\<not> (28 + 132 * i) + PIT_ENTRY_SIZE > length pitData"
    using assms by (simp add: PIT_ENTRY_SIZE_def)
  have "parse_entries pitData (int n) (int i) (28 + 132 * i) acc =
        parse_entries pitData (int n) (int i + 1) (28 + 132 * i + PIT_ENTRY_SIZE) (acc @ [parseEntry pitData (28 + 132 * i)])"
    using lt rng by (subst parse_entries.simps) simp
  also have "\<dots> = parse_entries pitData (int n) (int (Suc i)) (28 + 132 * Suc i) (acc @ [parseEntry pitData (28 + 132 * i)])"
    by (simp add: PIT_ENTRY_SIZE_def add.commute)
  also have "\<dots> = (acc @ [parseEntry pitData (28 + 132 * i)]) @ map (\<lambda>j. parseEntry pitData (28 + 132 * j)) [Suc i..<n]"
    by (rule Suc.hyps(1)) (use Suc.hyps(2) lt in auto)
  also have "\<dots> = acc @ map (\<lambda>j. parseEntry pitData (28 + 132 * j)) [i..<n]"
    using lt by (simp add: upt_conv_Cons)
  finally show ?case .
qed

subsection \<open>Serialize and parse\<close>

lemma serialize_props:
  assumes "wf_pit p"
  obtains b where "serialize p = Some b" and "length b = 28 + 132 * length (entries p)"
    and "parse b = Inr p"
proof -
  let ?n = "length (entries p)"
  let ?z = "replicate (28 + ?n * 132) (0 :: u8)"
  from assms have m: "magic p = PIT_MAGIC" and c: "count p = int ?n" and cu: "is_u32 (count p)"
    and wfs: "list_all wf_entry (entries p)"
    by (auto simp: wf_pit_def)
  have mu: "is_u32 (magic p)" by (simp add: m PIT_MAGIC_def is_u32_def)
  obtain b1 where s1: "u8_set ?z (numberToLE (magic p) 4) 0 = Some b1"
    and o1: "same_outside ?z b1 0 (0 + 4)" and r1: "LEToNumber b1 0 4 = magic p"
    by (rule field_write[OF _ mu, of 0 ?z]) auto
  have l1: "length b1 = 28 + ?n * 132" using same_outside_length[OF o1] by simp
  obtain b2 where s2: "u8_set b1 (numberToLE (count p) 4) 4 = Some b2"
    and o2: "same_outside b1 b2 4 (4 + 4)" and r2: "LEToNumber b2 4 4 = count p"
    by (rule field_write[OF _ cu, of 4 b1]) (auto simp: l1)
  have l2: "length b2 = 28 + ?n * 132" using same_outside_length[OF o2] l1 by simp
  have "28 + 132 * ?n \<le> length b2" by (simp add: l2)
  from serialize_entries_props[OF wfs this]
  obtain b where s3: "serialize_entries (entries p) b2 28 = Some b"
    and o3: "same_outside b2 b 28 (28 + 132 * ?n)"
    and r3: "\<forall>j < ?n. parseEntry b (28 + 132 * j) = entries p ! j"
    by blast
  have l3: "length b = 28 + 132 * ?n" using same_outside_length[OF o3] l2 by simp
  have ser: "serialize p = Some b"
    by (simp add: serialize_def Let_def PIT_HEADER_SIZE_def PIT_ENTRY_SIZE_def s1 s2 s3)
  have rm: "LEToNumber b 0 4 = magic p"
    using LEToNumber_stable[OF o3, of 0 4] LEToNumber_stable[OF o2, of 0 4] r1 by simp
  have rc: "LEToNumber b 4 4 = count p"
    using LEToNumber_stable[OF o3, of 4 4] r2 by simp
  have ents: "map (\<lambda>j. parseEntry b (28 + 132 * j)) [0..<?n] = entries p"
  proof (rule nth_equalityI)
    show "length (map (\<lambda>j. parseEntry b (28 + 132 * j)) [0..<?n]) = length (entries p)"
      by simp
  next
    fix i assume "i < length (map (\<lambda>j. parseEntry b (28 + 132 * j)) [0..<?n])"
    then show "map (\<lambda>j. parseEntry b (28 + 132 * j)) [0..<?n] ! i = entries p ! i"
      using r3 by simp
  qed
  have "parse_entries b (int ?n) (int 0) (28 + 132 * 0) [] =
          [] @ map (\<lambda>j. parseEntry b (28 + 132 * j)) [0..<?n]"
    by (rule parse_entries_all) (simp_all add: l3)
  then have pe: "parse_entries b (int ?n) 0 28 [] = entries p"
    by (simp add: ents)
  have "parse b = Inr p"
    using pe m c by (simp add: parse_def Let_def PIT_HEADER_SIZE_def l3 rm rc)
  with ser l3 show ?thesis using that by blast
qed

text \<open>
  C2: for every well-formed PIT value (the magic \<open>0x12349876\<close>, a count equal to the
  number of entries, unsigned 32-bit fields, each of the three strings of an entry at most
  31 ASCII characters), \<open>serialize\<close> returns bytes \<open>b\<close> that \<open>parse\<close> turns back into
  the same value; so for every such serialized \<open>b\<close>, serializing \<open>parse b\<close> gives \<open>b\<close>
  again.
\<close>

theorem pit_round_trip:
  assumes "wf_pit p"
  shows "\<exists>b. serialize p = Some b \<and> parse b = Inr p \<and>
             (case parse b of Inl e \<Rightarrow> None | Inr q \<Rightarrow> serialize q) = Some b"
proof -
  obtain b where "serialize p = Some b" and "parse b = Inr p"
    using serialize_props[OF assms] by blast
  then show ?thesis by simp
qed

lemma wf_example_pit: "wf_pit example_pit"
  by (simp add: example_pit_def example_entry_def wf_pit_def wf_entry_def wf_string_def
        ascii_string_def is_u32_def PIT_MAGIC_def)

theorem pit_round_trip_witness:
  "wf_pit example_pit \<and> (\<exists>b. serialize example_pit = Some b \<and> parse b = Inr example_pit \<and>
             (case parse b of Inl e \<Rightarrow> None | Inr q \<Rightarrow> serialize q) = Some b)"
  using pit_round_trip[of example_pit] wf_example_pit by simp

text \<open>
  C3, as stated, fails: a 28-byte input with the right magic and a count of 1 is too short
  to hold its entry, and \<open>parse\<close> returns a table with no entries and count 1 (the loop
  leaves with a warning in the log) instead of failing.
\<close>

theorem parse_truncated_counterexample:
  "length (numberToLE 0x12349876 4 @ numberToLE 1 4 @ replicate 20 (0 :: u8)) < 28 + 1 * 132 \<and>
   parse (numberToLE 0x12349876 4 @ numberToLE 1 4 @ replicate 20 0) =
     Inr \<lparr> magic = 0x12349876, count = 1, entries = [] \<rparr>"
  by code_simp

lemma parse_entries_map:
  "parse_entries pitData cnt i offset acc =
     acc @ map (\<lambda>j. parseEntry pitData (offset + 132 * j))
             [0..<min (nat (cnt - i)) ((length pitData - offset) div 132)]"
proof (induction pitData cnt i offset acc rule: parse_entries.induct)
  case (1 pitData cnt i offset acc)
  show ?case
  proof (cases "i < cnt")
    case False
    then show ?thesis by (subst parse_entries.simps) simp
  next
    case True
    show ?thesis
    proof (cases "offset + PIT_ENTRY_SIZE > length pitData")
      case True
      then have "(length pitData - offset) div 132 = 0" by (simp add: PIT_ENTRY_SIZE_def)
      with True \<open>i < cnt\<close> show ?thesis by (subst parse_entries.simps) simp
    next
      case False
      then have ge: "offset + 132 \<le> length pitData" by (simp add: PIT_ENTRY_SIZE_def)
      have d: "(length pitData - offset) div 132 = Suc ((length pitData - (offset + 132)) div 132)"
        using ge le_div_geq[of 132 "length pitData - offset"]
        by (simp add: diff_diff_left [symmetric] del: diff_diff_left)
      have n: "nat (cnt - i) = Suc (nat (cnt - (i + 1)))" using \<open>i < cnt\<close> by simp
      let ?m = "min (nat (cnt - (i + 1))) ((length pitData - (offset + 132)) div 132)"
      have m: "min (nat (cnt - i)) ((length pitData - offset) div 132) = Suc ?m"
        by (simp add: d n)
      have "parse_entries pitData cnt i offset acc =
            parse_entries pitData cnt (i + 1) (offset + PIT_ENTRY_SIZE)
              (acc @ [parseEntry pitData offset])"
        using \<open>i < cnt\<close> False by (subst parse_entries.simps) simp
      also have "\<dots> = (acc @ [parseEntry pitData offset]) @
            map (\<lambda>j. parseEntry pitData (offset + PIT_ENTRY_SIZE + 132 * j)) [0..<?m]"
        using "1.IH"[OF \<open>i < cnt\<close> False] by (simp add: PIT_ENTRY_SIZE_def)
      also have "\<dots> = acc @ map (\<lambda>j. parseEntry pitData (offset + 132 * j)) [0..<Suc ?m]"
      proof -
        have "map (\<lambda>j. parseEntry pitData (offset + 132 * j)) [0..<Suc ?m] =
              parseEntry pitData offset #
              map (\<lambda>j. parseEntry pitData (offset + 132 * j)) (map Suc [0..<?m])"
          by (simp only: map_Suc_upt upt_conv_Cons[of 0 "Suc ?m"]) simp
        also have "map (\<lambda>j. parseEntry pitData (offset + 132 * j)) (map Suc [0..<?m]) =
                   map (\<lambda>j. parseEntry pitData (offset + PIT_ENTRY_SIZE + 132 * j)) [0..<?m]"
          by (simp add: PIT_ENTRY_SIZE_def add.assoc)
        finally show ?thesis by simp
      qed
      finally show ?thesis by (simp only: m)
    qed
  qed
qed

text \<open>
  C3, amended: \<open>parse\<close> fails exactly when the input is shorter than the 28-byte header or
  its magic is not \<open>0x12349876\<close>. Otherwise it returns a table whose count is the header's
  count field and whose entries are the whole 132-byte entries the input holds after the
  header, at most count of them, each parsed at its place \<open>28 + 132 j\<close>, in order: as many
  as the count when the input is long enough, fewer when it is truncated.
\<close>

theorem parse_result:
  "((\<exists>e. parse b = Inl e) \<longleftrightarrow> length b < 28 \<or> LEToNumber b 0 4 \<noteq> 0x12349876) \<and>
   (\<forall>p. parse b = Inr p \<longrightarrow>
      magic p = 0x12349876 \<and> count p = LEToNumber b 4 4 \<and>
      length (entries p) = min (nat (count p)) ((length b - 28) div 132) \<and>
      entries p = map (\<lambda>j. parseEntry b (28 + 132 * j))
                    [0..<min (nat (count p)) ((length b - 28) div 132)])"
  by (auto simp: parse_def Let_def PIT_HEADER_SIZE_def PIT_MAGIC_def parse_entries_map)

text \<open>
  An input with the count 3 that holds one whole entry and 20 bytes more gives the one
  entry, read at offset 28; an input of 27 bytes fails.
\<close>

theorem parse_result_witness:
  "(\<exists>p. parse (numberToLE 0x12349876 4 @ numberToLE 3 4 @ replicate 20 0 @ replicate 76 1 @
               replicate 76 0) = Inr p \<and>
      magic p = 0x12349876 \<and> count p = 3 \<and> length (entries p) = 1 \<and>
      entries p = [parseEntry (numberToLE 0x12349876 4 @ numberToLE 3 4 @ replicate 20 0 @
                                replicate 76 1 @ replicate 76 0) 28] \<and>
      binaryType (hd (entries p)) = 0x01010101 \<and>
      fotaFilename (hd (entries p)) = []) \<and>
   (\<exists>e. parse (replicate 27 0) = Inl e)"
proof -
  let ?b = "numberToLE 0x12349876 4 @ numberToLE 3 4 @ replicate 20 0 @ replicate 76 1 @
            replicate 76 (0 :: u8)"
  have m: "LEToNumber ?b 0 4 = 0x12349876" and c: "LEToNumber ?b 4 4 = 3"
    by code_simp+
  have e: "binaryType (parseEntry ?b 28) = 0x01010101" "fotaFilename (parseEntry ?b 28) = []"
    by code_simp+
  have l: "min (nat 3) ((length ?b - 28) div 132) = 1" by simp
  have ok: "\<not> (length ?b < 28 \<or> LEToNumber ?b 0 4 \<noteq> 0x12349876)"
    by (simp add: m)
  with parse_result[of ?b] obtain p where p: "parse ?b = Inr p"
    by (cases "parse ?b") auto
  with parse_result[of ?b] have
    "magic p = 0x12349876 \<and> count p = 3 \<and> length (entries p) = 1 \<and>
     entries p = [parseEntry ?b 28]"
    by (simp add: c del: length_append length_replicate)
       (simp add: c l)
  moreover have "\<exists>e. parse (replicate 27 0) = Inl e"
    using parse_result[of "replicate 27 0"] by simp
  ultimately show ?thesis using p e by auto
qed

section \<open>The transport\<close>

lemma usb_write_connected:
  assumes "endpointOut s \<noteq> None" and "length bytes \<le> 65536"
  shows "usb_write bytes s =
           (case on_transferOut s (length (sent s)) of
              WrittenAll \<Rightarrow> (Inr (length bytes), s\<lparr>sent := sent s @ [bytes]\<rparr>)
            | Written n \<Rightarrow> (Inr n, s\<lparr>sent := sent s @ [bytes]\<rparr>)
            | OutFails \<Rightarrow> (Inl (Error ''USB write failed''), s\<lparr>sent := sent s @ [bytes]\<rparr>))"
  using assms
  by (simp add: usb_write_def io_catch_def io_throw_def transferOut_def Let_def
        split: out_outcome.splits)

lemma usb_write_unconnected:
  "endpointOut s = None \<Longrightarrow> usb_write bytes s = (Inl (Error ''Device not connected''), s)"
  by (simp add: usb_write_def io_throw_def)

lemma usb_read_connected:
  assumes "endpointIn s \<noteq> None"
  shows "usb_read n t s =
           (case on_transferIn s (length (requested s)) of
              Data bytes \<Rightarrow> (Inr bytes, s\<lparr>requested := requested s @ [n]\<rparr>)
            | InFails \<Rightarrow> (Inl (Error ''USB read failed''), s\<lparr>requested := requested s @ [n]\<rparr>)
            | TimedOut \<Rightarrow> (Inl (Error ''USB read timeout''), s\<lparr>requested := requested s @ [n]\<rparr>))"
  using assms
  by (simp add: usb_read_def io_catch_def io_throw_def transferIn_def Let_def
        split: in_outcome.splits)

lemma usb_read_unconnected:
  "endpointIn s = None \<Longrightarrow> usb_read n t s = (Inl (Error ''Device not connected''), s)"
  by (simp add: usb_read_def io_throw_def)

lemma usb_write_small_state:
  "length bytes \<le> 65536 \<Longrightarrow>
   snd (usb_write bytes s) =
     (if endpointOut s = None then s else s\<lparr>sent := sent s @ [bytes]\<rparr>)"
  by (cases "endpointOut s = None")
     (simp_all add: usb_write_unconnected usb_write_connected split: out_outcome.splits)

lemma usb_read_state:
  "snd (usb_read n t s) =
     (if endpointIn s = None then s else s\<lparr>requested := requested s @ [n]\<rparr>)"
  by (cases "endpointIn s = None")
     (simp_all add: usb_read_unconnected usb_read_connected split: in_outcome.splits)


lemma connected_simps [simp]:
  "connected (s\<lparr>sent := x\<rparr>) = connected s"
  "connected (s\<lparr>requested := y\<rparr>) = connected s"
  by (simp_all add: connected_def)

lemma connected_scripted [simp]: "connected (scripted replies)"
  by (simp add: connected_def scripted_def)

lemma scripted_simps:
  "on_transferIn (scripted replies) = replies"
  "on_transferOut (scripted replies) = (\<lambda>n. WrittenAll)"
  "endpointOut (scripted replies) = Some 2"
  "endpointIn (scripted replies) = Some 1"
  "sent (scripted replies) = []"
  "requested (scripted replies) = []"
  by (simp_all add: scripted_def)

text \<open>On a device that reports every chunk as written whole.\<close>

lemma usb_write_acked:
  assumes "endpointOut s \<noteq> None" and "on_transferOut s = (\<lambda>n. WrittenAll)"
    and "length w \<le> 65536"
  shows "usb_write w s = (Inr (length w), s\<lparr>sent := sent s @ [w]\<rparr>)"
  using usb_write_connected[OF assms(1) assms(3)] assms(2) by simp

lemma usb_write_block_acked:
  assumes "endpointOut s \<noteq> None" and "on_transferOut s = (\<lambda>n. WrittenAll)"
    and "length w = 131072"
  shows "usb_write w s = (Inr 131072, s\<lparr>sent := sent s @ [take 65536 w, drop 65536 w]\<rparr>)"
proof -
  let ?s1 = "s\<lparr>sent := sent s @ [take 65536 w]\<rparr>"
  let ?s2 = "s\<lparr>sent := sent s @ [take 65536 w, drop 65536 w]\<rparr>"
  have t1: "transferOut (take 65536 w) s = (Inr 65536, ?s1)"
    using assms by (simp add: transferOut_def Let_def)
  have t2: "transferOut (drop 65536 w) ?s1 = (Inr 65536, ?s2)"
    using assms by (simp add: transferOut_def Let_def)
  have c3: "write_chunks w 131072 131072 ?s2 = (Inr 131072, ?s2)"
    using assms(3) by (subst write_chunks.simps) simp
  have c2: "write_chunks w 65536 65536 ?s1 = (Inr 131072, ?s2)"
    using assms(3) t2 c3 by (subst write_chunks.simps) (simp add: Let_def u8_slice_def)
  have c1: "write_chunks w 0 0 s = (Inr 131072, ?s2)"
    using assms(3) t1 c2 by (subst write_chunks.simps) (simp add: Let_def u8_slice_def)
  show ?thesis using assms c1 by (cases "endpointOut s") (simp_all add: usb_write_def io_catch_def)
qed




lemma encode_ODIN: "TextEncoder_encode ''ODIN'' = [79, 68, 73, 78]"
  by (simp add: TextEncoder_encode_def encode_unit_def)

section \<open>Command frames\<close>

lemma length_frame: "length packed \<le> 1024 \<Longrightarrow> length (frame packed) = 1024"
  by (simp add: frame_def)

lemma command_buffer_frame:
  "length packed \<le> 1024 \<Longrightarrow> command_buffer packed s = (Inr (frame packed), s)"
  by (simp add: command_buffer_def u8_set_def frame_def io_return_def)

lemma send_command_eq:
  "length packed \<le> 1024 \<Longrightarrow> send_command packed s = usb_write (frame packed) s"
  by (simp add: send_command_def io_bind_def command_buffer_frame u8_slice_def packetSize_def
        length_frame)



section \<open>Handshake\<close>

lemma take4_LOKE:
  "4 \<le> length reply \<Longrightarrow>
   (reply ! 0 = 76 \<and> reply ! 1 = 79 \<and> reply ! 2 = 75 \<and> reply ! 3 = (69 :: u8)) \<longleftrightarrow>
   take 4 reply = [76, 79, 75, 69]"
proof -
  assume "4 \<le> length reply"
  then obtain a b c d rest where "reply = a # b # c # d # rest"
    by (cases reply; simp; rename_tac a r1; case_tac r1; simp; rename_tac b r2; case_tac r2;
        simp; rename_tac c r3; case_tac r3; simp)
  then show ?thesis by auto
qed

text \<open>
  C7: on a connected device the handshake hands exactly the four bytes \<open>ODIN\<close> to the
  device, in one transfer, and nothing else. It then reads a reply, in one transfer that
  asks for 64 bytes, and it returns true if and only if the reply it read has at least four
  bytes of which the first four are \<open>LOKE\<close> (76, 79, 75, 69); every other reply, one
  shorter than four bytes included, gives false, and the handshake never throws. (The
  reply is read when the device reports the four bytes as written; when it does not, or
  when a transfer fails, no reply is read and the handshake returns false.)
\<close>

theorem handshake_accepts_LOKE_only:
  assumes "connected s"
  shows "sent (snd (handshake s)) = sent s @ [[79, 68, 73, 78]] \<and>
         (requested (snd (handshake s)) = requested s \<or>
          requested (snd (handshake s)) = requested s @ [64]) \<and>
         (fst (handshake s) = Inr True \<or> fst (handshake s) = Inr False) \<and>
         (fst (handshake s) = Inr True \<longleftrightarrow>
            (\<exists>reply. requested (snd (handshake s)) = requested s @ [64] \<and>
               on_transferIn s (length (requested s)) = Data reply \<and>
               4 \<le> length reply \<and> take 4 reply = [76, 79, 75, 69])) \<and>
         (requested (snd (handshake s)) = requested s @ [64] \<longleftrightarrow>
            on_transferOut s (length (sent s)) = WrittenAll \<or>
            on_transferOut s (length (sent s)) = Written 4)"
proof -
  from assms have eo: "endpointOut s \<noteq> None" and ei: "endpointIn s \<noteq> None"
    by (simp_all add: connected_def)
  let ?s1 = "s\<lparr>sent := sent s @ [[79, 68, 73, 78]]\<rparr>"
  let ?s2 = "?s1\<lparr>requested := requested s @ [64]\<rparr>"
  have w: "usb_write [79, 68, 73, 78] s =
             (case on_transferOut s (length (sent s)) of
                WrittenAll \<Rightarrow> (Inr 4, ?s1)
              | Written n \<Rightarrow> (Inr n, ?s1)
              | OutFails \<Rightarrow> (Inl (Error ''USB write failed''), ?s1))"
    using usb_write_connected[OF eo, of "[79, 68, 73, 78]"]
    by (cases "on_transferOut s (length (sent s))") simp_all
  have r: "usb_read 64 TIMEOUT_HANDSHAKE ?s1 =
             (case on_transferIn s (length (requested s)) of
                Data bytes \<Rightarrow> (Inr bytes, ?s2)
              | InFails \<Rightarrow> (Inl (Error ''USB read failed''), ?s2)
              | TimedOut \<Rightarrow> (Inl (Error ''USB read timeout''), ?s2))"
    using usb_read_connected[of ?s1 64 TIMEOUT_HANDSHAKE] ei
    by (cases "on_transferIn s (length (requested s))") simp_all
  show ?thesis
  proof (cases "on_transferOut s (length (sent s)) = WrittenAll \<or>
                on_transferOut s (length (sent s)) = Written 4")
    case False
    then have "handshake s = (Inr False, ?s1)"
      using w
      by (auto simp: handshake_def io_catch_def io_bind_def io_return_def encode_ODIN
            split: out_outcome.splits)
    with False show ?thesis by simp
  next
    case True
    then have w4: "usb_write [79, 68, 73, 78] s = (Inr 4, ?s1)" using w by auto
    show ?thesis
    proof (cases "on_transferIn s (length (requested s))")
      case (Data reply)
      define ok where "ok \<longleftrightarrow> \<not> length reply < 4 \<and> reply ! 0 = 76 \<and> reply ! 1 = 79 \<and>
                              reply ! 2 = 75 \<and> reply ! 3 = 69"
      have h: "handshake s = (Inr ok, ?s2)"
        using w4 r Data
        by (simp add: handshake_def io_catch_def io_bind_def io_return_def encode_ODIN ok_def)
      have "ok \<longleftrightarrow> 4 \<le> length reply \<and> take 4 reply = [76, 79, 75, 69]"
        using take4_LOKE[of reply] by (auto simp: ok_def)
      with True Data show ?thesis unfolding h by auto
    next
      case InFails
      then have "handshake s = (Inr False, ?s2)"
        using w4 r by (simp add: handshake_def io_catch_def io_bind_def io_return_def encode_ODIN)
      with True InFails show ?thesis by simp
    next
      case TimedOut
      then have "handshake s = (Inr False, ?s2)"
        using w4 r by (simp add: handshake_def io_catch_def io_bind_def io_return_def encode_ODIN)
      with True TimedOut show ?thesis by simp
    qed
  qed
qed

text \<open>A device that answers \<open>LOKE\<close>: one transfer out, one transfer in, and success.\<close>

theorem handshake_accepts_LOKE_only_witness:
  "connected loke_device \<and>
   fst (handshake loke_device) = Inr True \<and>
   sent (snd (handshake loke_device)) = [[79, 68, 73, 78]] \<and>
   requested (snd (handshake loke_device)) = [64]"
  using handshake_accepts_LOKE_only[of loke_device]
  by (simp add: loke_device_def scripted_def connected_def)

section \<open>Receiving the PIT\<close>







section \<open>The LZ4 block decoder\<close>

lemma copy_literals_length:
  "copy_literals src dst srcPos dstPos n = (dst', srcPos', dstPos') \<Longrightarrow> length dst' = length dst"
proof (induction n arbitrary: dst srcPos dstPos)
  case 0
  then show ?case by simp
next
  case (Suc n)
  from Suc.prems have "copy_literals src (dst[dstPos := (if srcPos < length src then src ! srcPos else 0)])
       (srcPos + 1) (dstPos + 1) n = (dst', srcPos', dstPos')"
    by simp
  from Suc.IH[OF this] show ?case by simp
qed

lemma copy_match_length:
  "copy_match dst dstPos matchPos n = (dst', dstPos') \<Longrightarrow> length dst' = length dst"
proof (induction n arbitrary: dst dstPos matchPos)
  case 0
  then show ?case by simp
next
  case (Suc n)
  from Suc.prems have "copy_match (dst[dstPos := (if matchPos < length dst then dst ! matchPos else 0)])
       (dstPos + 1) (matchPos + 1) n = (dst', dstPos')"
    by simp
  from Suc.IH[OF this] show ?case by simp
qed

lemma read_sequence_length:
  "read_sequence src dst srcPos dstPos = EndOfBlock dst' dstPos' \<Longrightarrow> length dst' = length dst"
  "read_sequence src dst srcPos dstPos = Match dst1 srcPos1 dstPos1 offset \<Longrightarrow>
   length dst1 = length dst"
  unfolding read_sequence_def Let_def
  by (auto split: if_splits prod.splits option.splits dest: copy_literals_length)

lemma copy_sequence_match_Continue:
  assumes "copy_sequence_match token src dst srcPos dstPos offset = Continue dst' srcPos' dstPos'"
  shows "length dst' = length dst \<and> 0 < offset \<and> offset \<le> dstPos"
  using assms unfolding copy_sequence_match_def Let_def
  by (auto split: if_splits prod.splits option.splits dest!: copy_match_length)

lemma copy_sequence_match_Throw:
  "(\<exists>e. copy_sequence_match token src dst srcPos dstPos offset = Throw e) \<longleftrightarrow>
     offset = 0 \<or> dstPos < offset"
  unfolding copy_sequence_match_def Let_def
  by (auto split: if_splits prod.splits option.splits)

lemma copy_sequence_match_error:
  "copy_sequence_match token src dst srcPos dstPos offset = Throw e \<Longrightarrow>
   e = (if offset = 0 then Error ''Invalid offset (0)'' else Error ''Invalid match position'')"
  unfolding copy_sequence_match_def Let_def
  by (auto split: if_splits prod.splits option.splits)

lemma decompress_loop_result:
  assumes "decompress_loop src dst srcPos dstPos offsets = (r, offsets')"
    and "list_all offset_in_bounds offsets"
  shows "(case r of
            Inr (dst', dstPos') \<Rightarrow> length dst' = length dst \<and> list_all offset_in_bounds offsets'
          | Inl e \<Rightarrow>
              offsets' \<noteq> [] \<and> list_all offset_in_bounds (butlast offsets') \<and>
              \<not> offset_in_bounds (last offsets') \<and>
              e = (if fst (last offsets') = 0 then Error ''Invalid offset (0)''
                   else Error ''Invalid match position''))"
  using assms
proof (induction src dst srcPos dstPos offsets rule: decompress_loop.induct)
  case (1 src dst srcPos dstPos offsets)
  show ?case
  proof (cases "srcPos < length src")
    case False
    with "1.prems" show ?thesis
      by (auto simp: decompress_loop.simps[of src dst srcPos dstPos offsets])
  next
    case True
    show ?thesis
    proof (cases "read_sequence src dst srcPos dstPos")
      case (EndOfBlock d p)
      with True "1.prems" read_sequence_length(1)[OF EndOfBlock] show ?thesis
        by (auto simp: decompress_loop.simps[of src dst srcPos dstPos offsets])
    next
      case (Match dst1 srcPos1 dstPos1 offset)
      note l1 = read_sequence_length(2)[OF Match]
      show ?thesis
      proof (cases "copy_sequence_match (src ! srcPos) src dst1 srcPos1 dstPos1 offset")
        case (Throw e)
        then have bad: "offset = 0 \<or> dstPos1 < offset"
          using copy_sequence_match_Throw[of "src ! srcPos" src dst1 srcPos1 dstPos1 offset]
          by blast
        from True Match Throw "1.prems"(1)
        have r: "r = Inl e" "offsets' = offsets @ [(offset, dstPos1)]"
          by (auto simp: decompress_loop.simps[of src dst srcPos dstPos offsets])
        from bad have nb: "\<not> offset_in_bounds (offset, dstPos1)"
          by (auto simp: offset_in_bounds_def)
        from copy_sequence_match_error[OF Throw] nb r "1.prems"(2) show ?thesis
          by auto
      next
        case (Continue d sp p)
        from copy_sequence_match_Continue[OF Continue]
        have l: "length d = length dst1" and ok: "0 < offset \<and> offset \<le> dstPos1" by auto
        from True Match Continue "1.prems"(1)
        have rec: "decompress_loop src d sp p (offsets @ [(offset, dstPos1)]) = (r, offsets')"
          by (simp add: decompress_loop.simps[of src dst srcPos dstPos offsets])
        have "offset_in_bounds (offset, dstPos1)" using ok by (simp add: offset_in_bounds_def)
        then have "list_all offset_in_bounds (offsets @ [(offset, dstPos1)])"
          using "1.prems"(2) by simp
        from "1.IH"[OF True Match Continue rec this] l l1 show ?thesis
          by (auto split: sum.splits)
      qed
    qed
  qed
qed

text \<open>
  C8, amended: for every block and every maximum size, the decoder fails with an error
  exactly when it reads a match offset that is 0 or reaches before the start of the output;
  the offsets it read before that one were in bounds, \<open>0 < offset \<le> current output
  position\<close>, and the error is \<open>Invalid offset (0)\<close> or \<open>Invalid match position\<close>. When
  it returns, every offset it read was in bounds, and its output is the first \<open>dstPos\<close>
  bytes of a buffer of \<open>maxSize\<close> bytes, so it has at most \<open>maxSize\<close> bytes. A block
  that decodes to more than \<open>maxSize\<close> bytes is not refused.
\<close>

theorem decompressBlock_bounds:
  assumes "decompressBlock_traced src maxSize = (r, offsets)"
  shows "decompressBlock src maxSize = (case r of Inl e \<Rightarrow> Inl e | Inr (out, dstPos) \<Rightarrow> Inr out) \<and>
         ((\<exists>e. decompressBlock src maxSize = Inl e) \<longleftrightarrow> \<not> list_all offset_in_bounds offsets) \<and>
         list_all offset_in_bounds (butlast offsets) \<and>
         (case r of
            Inr (out, dstPos) \<Rightarrow> length out = min dstPos maxSize \<and> length out \<le> maxSize
          | Inl e \<Rightarrow>
              e = (if fst (last offsets) = 0 then Error ''Invalid offset (0)''
                   else Error ''Invalid match position''))"
proof -
  obtain r0 where lp: "decompress_loop src (replicate maxSize 0) 0 0 [] = (r0, offsets)"
    and r: "r = (case r0 of Inl e \<Rightarrow> Inl e | Inr (dst, dstPos) \<Rightarrow> Inr (u8_slice dst 0 dstPos, dstPos))"
    using assms
    by (cases "decompress_loop src (replicate maxSize 0) 0 0 []")
       (auto simp: decompressBlock_traced_def split: sum.splits)
  have d: "decompressBlock src maxSize = (case r of Inl e \<Rightarrow> Inl e | Inr (out, dstPos) \<Rightarrow> Inr out)"
    using assms by (simp add: decompressBlock_def)
  from decompress_loop_result[OF lp] have res:
    "(case r0 of
        Inr (dst', dstPos') \<Rightarrow> length dst' = maxSize \<and> list_all offset_in_bounds offsets
      | Inl e \<Rightarrow>
          offsets \<noteq> [] \<and> list_all offset_in_bounds (butlast offsets) \<and>
          \<not> offset_in_bounds (last offsets) \<and>
          e = (if fst (last offsets) = 0 then Error ''Invalid offset (0)''
               else Error ''Invalid match position''))"
    by (auto split: sum.splits)
  show ?thesis
  proof (cases r0)
    case (Inl e)
    with res have "offsets \<noteq> []" "list_all offset_in_bounds (butlast offsets)"
      "\<not> offset_in_bounds (last offsets)"
      "e = (if fst (last offsets) = 0 then Error ''Invalid offset (0)''
            else Error ''Invalid match position'')"
      by auto
    moreover from this(1,3) have "\<not> list_all offset_in_bounds offsets"
      by (cases offsets rule: rev_cases) auto
    ultimately show ?thesis using Inl r d by simp
  next
    case (Inr x)
    obtain dst dstPos where x: "x = (dst, dstPos)" by (cases x)
    with Inr res have "length dst = maxSize" and all: "list_all offset_in_bounds offsets" by auto
    moreover from all have "list_all offset_in_bounds (butlast offsets)"
      by (cases offsets rule: rev_cases) auto
    ultimately show ?thesis using Inr x r d by (simp add: u8_slice_def)
  qed
qed

text \<open>
  A block that decodes to eight bytes with one match copy at offset 1; a block whose match
  offset is 0; and a block whose match offset 5 reaches before the one byte of output.
\<close>

theorem decompressBlock_bounds_witness:
  "decompressBlock_traced [0x11, 0x41, 0x01, 0x00, 0x20, 0x42, 0x43] 16 =
     (Inr ([0x41, 0x41, 0x41, 0x41, 0x41, 0x41, 0x42, 0x43], 8), [(1, 1)]) \<and>
   decompressBlock [0x11, 0x41, 0x01, 0x00, 0x20, 0x42, 0x43] 16 =
     Inr [0x41, 0x41, 0x41, 0x41, 0x41, 0x41, 0x42, 0x43] \<and>
   list_all offset_in_bounds [(1, 1)] \<and>
   decompressBlock_traced [0x00, 0x00, 0x00] 16 = (Inl (Error ''Invalid offset (0)''), [(0, 0)]) \<and>
   decompressBlock [0x00, 0x00, 0x00] 16 = Inl (Error ''Invalid offset (0)'') \<and>
   \<not> list_all offset_in_bounds [(0, 0)] \<and>
   decompressBlock_traced [0x10, 0x41, 0x05, 0x00] 16 =
     (Inl (Error ''Invalid match position''), [(5, 1)]) \<and>
   decompressBlock [0x10, 0x41, 0x05, 0x00] 16 = Inl (Error ''Invalid match position'') \<and>
   \<not> list_all offset_in_bounds [(5, 1)]"
proof -
  have a: "decompressBlock_traced [0x11, 0x41, 0x01, 0x00, 0x20, 0x42, 0x43] 16 =
     (Inr ([0x41, 0x41, 0x41, 0x41, 0x41, 0x41, 0x42, 0x43], 8), [(1, 1)])"
    by code_simp
  have b: "decompressBlock_traced [0x00, 0x00, 0x00] 16 =
     (Inl (Error ''Invalid offset (0)''), [(0, 0)])"
    by code_simp
  have c: "decompressBlock_traced [0x10, 0x41, 0x05, 0x00] 16 =
     (Inl (Error ''Invalid match position''), [(5, 1)])"
    by code_simp
  from decompressBlock_bounds[OF a] decompressBlock_bounds[OF b] decompressBlock_bounds[OF c]
    a b c
  show ?thesis by (simp add: offset_in_bounds_def)
qed

subsection \<open>A block that decodes to more than the maximum block size\<close>

lemma read_length_ext_run:
  "x \<noteq> 255 \<Longrightarrow>
   read_length_ext (pre @ replicate j 255 @ x # rest) (length pre) len =
     (Some (len + 255 * j + unat x), length pre + j + 1)"
proof (induction j arbitrary: pre len)
  case 0
  then show ?case by (subst read_length_ext.simps) simp
next
  case (Suc j)
  have "read_length_ext ((pre @ [255]) @ replicate j 255 @ x # rest) (length (pre @ [255])) (len + 255) =
     (Some (len + 255 + 255 * j + unat x), length (pre @ [255]) + j + 1)"
    by (rule Suc.IH[OF Suc.prems])
  then show ?case by (subst read_length_ext.simps) simp
qed

lemma copy_match_fill:
  "0 < k \<Longrightarrow> copy_match (replicate k c @ replicate n 0) k (k - 1) n = (replicate (k + n) c, k + n)"
proof (induction n arbitrary: k)
  case 0
  then show ?case by simp
next
  case (Suc n)
  let ?D = "replicate k c @ replicate (Suc n) 0"
  have l: "k - 1 < length ?D" using Suc.prems by simp
  have v: "?D ! (k - 1) = c" using Suc.prems by (simp add: nth_append)
  have u: "?D[k := c] = replicate (Suc k) c @ replicate n 0"
    by (simp add: list_update_append replicate_append_same)
  have m: "k - 1 + 1 = Suc k - 1" using Suc.prems by simp
  have "copy_match ?D k (k - 1) (Suc n) =
        copy_match (?D[k := (if k - 1 < length ?D then ?D ! (k - 1) else 0)]) (k + 1) (k - 1 + 1) n"
    by (rule copy_match.simps(2))
  also have "\<dots> = copy_match (?D[k := c]) (Suc k) (Suc k - 1) n"
    using l v m by (simp del: replicate.simps)
  also have "\<dots> = copy_match (replicate (Suc k) c @ replicate n 0) (Suc k) (Suc k - 1) n"
    by (simp only: u)
  also have "\<dots> = (replicate (Suc k + n) c, Suc k + n)"
    by (rule Suc.IH) simp
  finally show ?case by simp
qed

lemma copy_match_beyond:
  "length dst \<le> dstPos \<Longrightarrow> copy_match dst dstPos matchPos n = (dst, dstPos + n)"
  by (induction n arbitrary: dstPos matchPos) (simp_all add: list_update_beyond)

lemma copy_match_add:
  "copy_match dst dstPos matchPos (a + b) =
     (case copy_match dst dstPos matchPos a of
        (dst', dstPos') \<Rightarrow> copy_match dst' dstPos' (matchPos + a) b)"
  by (induction a arbitrary: dst dstPos matchPos) simp_all

lemma read_sequence_literals:
  assumes "src ! p = token" and "drop_bit 4 token \<noteq> 15"
    and "copy_literals src dst (p + 1) q (unat (drop_bit 4 token)) = (d1, p1, q1)"
    and "p1 < length src"
    and "unat (byte_at src p1 OR push_bit 8 (byte_at src (p1 + 1))) = off"
  shows "read_sequence src dst p q = Match d1 (p1 + 2) q1 off"
  using assms unfolding read_sequence_def Let_def by simp

lemma copy_sequence_match_ext:
  assumes "0 < off" and "token AND 0xF = 15"
    and "read_length_ext src p1 (15 + 4) = (Some n, p2)"
    and "off \<le> q1"
    and "copy_match d1 q1 (q1 - off) n = (d2, q2)"
  shows "copy_sequence_match token src d1 p1 q1 off = Continue d2 p2 q2"
  using assms unfolding copy_sequence_match_def Let_def by simp

text \<open>
  C8, as stated, fails: with the smallest maximum block size of a frame, 64 KiB, a block of
  262 bytes (one literal, then a match at offset 1 of length 65554) decodes to 65555 bytes.
  The decoder does not throw; it returns the first 65536 bytes.
\<close>

theorem decompressBlock_overflow_counterexample:
  "decompressBlock_traced ([0x1F, 0x41, 0x01, 0x00] @ replicate 257 0xFF @ [0x00]) 65536 =
     (Inr (replicate 65536 0x41, 65555), [(1, 1)]) \<and>
   decompressBlock ([0x1F, 0x41, 0x01, 0x00] @ replicate 257 0xFF @ [0x00]) 65536 =
     Inr (replicate 65536 0x41) \<and>
   (65536 :: nat) < 65555"
proof -
  let ?src = "[0x1F, 0x41, 0x01, 0x00] @ replicate 257 0xFF @ [0x00 :: u8]"
  let ?dst0 = "replicate 65536 (0 :: u8)"
  let ?d1 = "replicate 1 0x41 @ replicate 65535 (0 :: u8)"
  have len: "length ?src = 262" by simp
  have l4: "length [0x1F, 0x41, 0x01, 0x00 :: u8] = 4" by simp
  have tok: "?src ! 0 = 0x1F" by simp
  have ext: "read_length_ext ?src (2 + 2) (15 + 4) = (Some 65554, 262)"
    using read_length_ext_run[of 0 "[0x1F, 0x41, 0x01, 0x00]" 257 "[]" "15 + 4"]
    by (simp only: l4) simp
  have lit: "copy_literals ?src ?dst0 (0 + 1) 0 (unat (drop_bit 4 (0x1F :: u8))) = (?d1, 2, 1)"
  proof -
    have "?dst0 = replicate 1 0 @ replicate 65535 (0 :: u8)"
      by (simp add: replicate_add[symmetric] del: replicate.simps)
    then have "?dst0[0 := 0x41] = ?d1"
      by (simp del: replicate_add)
    moreover have "unat (drop_bit 4 (0x1F :: u8)) = Suc 0" by simp
    ultimately show ?thesis by simp
  qed
  have "copy_match ?d1 1 (1 - 1) (65535 + 19) = (replicate 65536 (0x41 :: u8), 65555)"
    using copy_match_fill[of 1 "0x41 :: u8" 65535]
    by (simp only: copy_match_add) (simp add: copy_match_beyond)
  then have mat: "copy_match ?d1 1 (1 - 1) 65554 = (replicate 65536 (0x41 :: u8), 65555)"
    by simp
  have rs: "read_sequence ?src ?dst0 0 0 = Match ?d1 (2 + 2) 1 1"
  proof (rule read_sequence_literals[where token = "0x1F"])
    show "?src ! 0 = 0x1F" by simp
    show "drop_bit 4 (0x1F :: u8) \<noteq> 15" by simp
    show "copy_literals ?src ?dst0 (0 + 1) 0 (unat (drop_bit 4 (0x1F :: u8))) = (?d1, 2, 1)"
      by (rule lit)
    show "2 < length ?src" by simp
    show "unat (byte_at ?src 2 OR push_bit 8 (byte_at ?src (2 + 1))) = 1"
      by (simp add: byte_at_def)
  qed
  have cm: "copy_sequence_match 0x1F ?src ?d1 (2 + 2) 1 1 = Continue (replicate 65536 0x41) 262 65555"
  proof (rule copy_sequence_match_ext)
    show "0 < (1 :: nat)" by simp
    show "(0x1F :: u8) AND 0xF = 15" by simp
    show "read_length_ext ?src (2 + 2) (15 + 4) = (Some 65554, 262)" by (rule ext)
    show "(1 :: nat) \<le> 1" by simp
    show "copy_match ?d1 1 (1 - 1) 65554 = (replicate 65536 (0x41 :: u8), 65555)" by (rule mat)
  qed
  have "decompress_loop ?src ?dst0 0 0 [] =
        decompress_loop ?src (replicate 65536 0x41) 262 65555 ([] @ [(1, 1)])"
    by (subst decompress_loop.simps) (simp only: len rs tok cm sequence_start.case match_result.case, simp)
  also have "\<dots> = (Inr (replicate 65536 0x41, 65555), [(1, 1)])"
    by (subst decompress_loop.simps) (simp only: len, simp)
  finally have "decompressBlock_traced ?src 65536 = (Inr (replicate 65536 0x41, 65555), [(1, 1)])"
    by (simp add: decompressBlock_traced_def u8_slice_def)
  then show ?thesis by (simp add: decompressBlock_def)
qed

section \<open>Matching members to PIT entries\<close>

lemma match_entries_find:
  "match_entries fname fnameBase es = find (entry_matches fname fnameBase) es"
  by (induction es) auto

lemma replace_absent:
  "length pat = 1 \<Longrightarrow> hd pat \<notin> set str \<Longrightarrow> replace str pat rep = str"
proof (induction str)
  case Nil
  then show ?case by auto
next
  case (Cons c cs)
  then obtain p where p: "pat = [p]" by (cases pat) auto
  with Cons show ?case by auto
qed

lemma replace_single_hyphen:
  "count_list str CHR ''-'' \<le> 1 \<Longrightarrow> replace str ''-'' ''_'' = normalize_hyphens str"
proof (induction str)
  case Nil
  then show ?case by (simp add: normalize_hyphens_def)
next
  case (Cons c cs)
  show ?case
  proof (cases "c = CHR ''-''")
    case True
    with Cons.prems have "count_list cs CHR ''-'' = 0" by simp
    then have "CHR ''-'' \<notin> set cs" by (simp add: count_list_0_iff)
    then have "normalize_hyphens cs = cs"
      unfolding normalize_hyphens_def by (intro map_idI) auto
    with True show ?thesis by (simp add: normalize_hyphens_def)
  next
    case False
    with Cons.prems have "count_list cs CHR ''-'' \<le> 1" by simp
    from Cons.IH[OF this] False show ?thesis by (simp add: normalize_hyphens_def)
  qed
qed

lemma entry_matches_rule:
  assumes "count_list (fnameBase_of (toLowerCase n)) CHR ''-'' \<le> 1"
    and "count_list (toLowerCase (partitionName e)) CHR ''-'' \<le> 1"
  shows "entry_matches (toLowerCase n) (fnameBase_of (toLowerCase n)) e \<longleftrightarrow> satisfies_rule n e"
  by (simp add: entry_matches_def satisfies_rule_def Let_def replace_single_hyphen[OF assms(1)]
        replace_single_hyphen[OF assms(2)])

lemma find_cong_list_all:
  "list_all (\<lambda>e. P e \<longleftrightarrow> Q e) es \<Longrightarrow> find P es = find Q es"
  by (induction es) auto

text \<open>
  C5, as stated, fails. First: the member \<open>a.img.old\<close> carries none of the four suffixes,
  so its base is the name itself, which is the partition name of the second entry (rule 3)
  and matches nothing of the first entry; but the matcher removes \<open>.img\<close> from inside the
  name, finds the partition name \<open>a.old\<close> of the first entry, and adopts partition 1, not
  2. Second: the member \<open>a-b-c\<close> and the partition name \<open>a_b_c\<close> are equal once every
  \<open>-\<close> is normalized to \<open>_\<close> (rule 4), but the matcher replaces only the first \<open>-\<close> and
  adopts nothing.
\<close>

theorem match_item_counterexample:
  "\<not> endsWith ''a.img.old'' ''.lz4'' \<and> \<not> endsWith ''a.img.old'' ''.gz'' \<and>
   \<not> endsWith ''a.img.old'' ''.img'' \<and> \<not> endsWith ''a.img.old'' ''.bin'' \<and>
   partitionName (named_entry ''a.img.old'' ''y'' 2) = ''a.img.old'' \<and>
   partition_id (info (match_item [named_entry ''a.old'' ''x'' 1, named_entry ''a.img.old'' ''y'' 2]
                         (plain_item ''a.img.old'' [1]))) = Some 1 \<and>
   normalize_hyphens ''a-b-c'' = normalize_hyphens (partitionName (named_entry ''a_b_c'' ''x'' 7)) \<and>
   partition_id (info (match_item [named_entry ''a_b_c'' ''x'' 7] (plain_item ''a-b-c'' [1]))) = None"
  by code_simp

text \<open>
  C5, amended: for every member name \<open>n\<close> and PIT \<open>P\<close>, the matcher adopts
  \<open>(partition_id, device_type)\<close> from the first entry, in entry order, that satisfies one
  of the four rules, all of them on lower-cased names: (1) \<open>n\<close> equals the flash file name;
  (2) \<open>base(n)\<close> equals the flash file name with its first \<open>.img\<close> and its first \<open>.bin\<close>
  removed, where \<open>base(n)\<close> is \<open>n\<close> with the first \<open>.lz4\<close>, \<open>.gz\<close>, \<open>.img\<close> and
  \<open>.bin\<close> removed, wherever they stand; (3) \<open>base(n)\<close> equals the partition name;
  (4) the two are equal after normalizing \<open>-\<close> to \<open>_\<close>. When no entry satisfies a rule,
  the partition id is left as it is and a missing device type becomes 2. This is stated for
  names with at most one \<open>-\<close> in \<open>base(n)\<close> and in every partition name.
\<close>

theorem match_item_first_entry:
  assumes "count_list (fnameBase_of (toLowerCase (filename item))) CHR ''-'' \<le> 1"
    and "list_all (\<lambda>e. count_list (toLowerCase (partitionName e)) CHR ''-'' \<le> 1) P"
  shows "match_item P item =
           (case find (satisfies_rule (filename item)) P of
              Some e \<Rightarrow>
                item\<lparr>info := (info item)\<lparr>partition_id := Some (partitionId e),
                                            device_type := Some (deviceType e)\<rparr>\<rparr>
            | None \<Rightarrow>
                if device_type (info item) = None \<or> device_type (info item) = Some 0
                then item\<lparr>info := (info item)\<lparr>device_type := Some 2\<rparr>\<rparr>
                else item)"
proof -
  let ?n = "filename item"
  have "list_all (\<lambda>e. entry_matches (toLowerCase ?n) (fnameBase_of (toLowerCase ?n)) e \<longleftrightarrow>
                       satisfies_rule ?n e) P"
    using assms(2) entry_matches_rule[OF assms(1)] by (simp add: list_all_iff)
  then have "find (entry_matches (toLowerCase ?n) (fnameBase_of (toLowerCase ?n))) P =
             find (satisfies_rule ?n) P"
    by (rule find_cong_list_all)
  then show ?thesis by (simp add: match_item_def Let_def match_entries_find)
qed

text \<open>
  The scenario of the specification: with the entries BOOTLOADER (\<open>sboot.bin\<close>, id 80) and
  BOOT (\<open>boot.img\<close>, id 3), the member \<open>boot.img.lz4\<close> has the base \<open>boot\<close>, which is
  \<open>boot.img\<close> without \<open>.img\<close>: it adopts id 3 and device type 2 from the second entry.
\<close>

theorem match_item_first_entry_witness:
  "count_list (fnameBase_of (toLowerCase (filename (plain_item ''boot.img.lz4'' [1])))) CHR ''-'' \<le> 1 \<and>
   list_all (\<lambda>e. count_list (toLowerCase (partitionName e)) CHR ''-'' \<le> 1) (entries example_pit) \<and>
   fnameBase_of ''boot.img.lz4'' = ''boot'' \<and> flashNameBase_of ''boot.img'' = ''boot'' \<and>
   find (satisfies_rule ''boot.img.lz4'') (entries example_pit) = Some (entries example_pit ! 1) \<and>
   partition_id (info (match_item (entries example_pit) (plain_item ''boot.img.lz4'' [1]))) = Some 3 \<and>
   device_type (info (match_item (entries example_pit) (plain_item ''boot.img.lz4'' [1]))) = Some 2"
proof -
  have a: "count_list (fnameBase_of (toLowerCase (filename (plain_item ''boot.img.lz4'' [1])))) CHR ''-'' \<le> 1"
    by code_simp
  have b: "list_all (\<lambda>e. count_list (toLowerCase (partitionName e)) CHR ''-'' \<le> 1) (entries example_pit)"
    by code_simp
  have c: "fnameBase_of ''boot.img.lz4'' = ''boot''" "flashNameBase_of ''boot.img'' = ''boot''"
    by code_simp+
  have d: "find (satisfies_rule ''boot.img.lz4'') (entries example_pit) = Some (entries example_pit ! 1)"
    by code_simp
  have f: "filename (plain_item ''boot.img.lz4'' [1]) = ''boot.img.lz4''"
    by (simp add: plain_item_def)
  from match_item_first_entry[OF a b] d
  have "match_item (entries example_pit) (plain_item ''boot.img.lz4'' [1]) =
        (plain_item ''boot.img.lz4'' [1])\<lparr>info := (info (plain_item ''boot.img.lz4'' [1]))
           \<lparr>partition_id := Some (partitionId (entries example_pit ! 1)),
            device_type := Some (deviceType (entries example_pit ! 1))\<rparr>\<rparr>"
    by (simp add: f)
  then have "partition_id (info (match_item (entries example_pit) (plain_item ''boot.img.lz4'' [1]))) = Some 3"
    and "device_type (info (match_item (entries example_pit) (plain_item ''boot.img.lz4'' [1]))) = Some 2"
    by (simp_all add: example_pit_def example_entry_def)
  with a b c d show ?thesis by simp
qed

section \<open>What the transfer operations hand to the transport\<close>

lemma length_structPack_IIIIII [simp]:
  "length (structPack ''<IIIIII'' [a, b, c, d, e, f]) = 24"
  by (simp add: structPack_def)

lemma length_pad_block: "length (pad_block block) = max (length block) fileTransferPacketSize"
  by (simp add: pad_block_def)

lemma empty_transfer_eq:
  "empty_transfer s =
     (Inr (), if endpointOut s = None then s else s\<lparr>sent := sent s @ [[]]\<rparr>)"
  by (cases "endpointOut s"; cases "on_transferOut s (length (sent s))")
     (simp_all add: empty_transfer_def io_catch_def io_bind_def io_return_def io_throw_def
        usb_write_def transferOut_def Let_def)

text \<open>The finalizer is a command frame: 32 bytes of fields and 992 zeros.\<close>

lemma finalize_buffer_frame:
  "finalize_buffer actualBytes devType partId completionStatus s =
     (Inr (frame (structPack ''<II'' [102, 3] @
                  structPack ''<IIIIII''
                    [0, int actualBytes, 0, devType, partId, completionStatus])), s)"
proof -
  let ?a = "structPack ''<II'' [102, 3]"
  let ?b = "structPack ''<IIIIII'' [0, int actualBytes, 0, devType, partId, completionStatus]"
  have 1: "u8_set (replicate 1024 0) ?a 0 = Some (?a @ replicate 1016 0)"
    by (simp add: u8_set_def)
  have 2: "u8_set (?a @ replicate 1016 0) ?b 8 = Some (?a @ ?b @ replicate 992 0)"
    by (simp add: u8_set_def)
  show ?thesis
    by (simp add: finalize_buffer_def 1 2 io_return_def frame_def)
qed

section \<open>The members that are passed over\<close>

lemma match_item_name_data:
  "filename (match_item P item) = filename item" "data (match_item P item) = data item"
  "isLargeFile (info (match_item P item)) = isLargeFile (info item)"
  by (simp_all add: match_item_def Let_def split: option.splits)

lemma detect_from_filename_name_data:
  "filename (detect_from_filename item) = filename item"
  "data (detect_from_filename item) = data item"
  "isLargeFile (info (detect_from_filename item)) = isLargeFile (info item)"
  by (simp_all add: detect_from_filename_def Let_def)

lemma transfer_items_skip:
  assumes "str_includes (filename item) ''meta-data/'' \<or> endsWith (filename item) ''.zip'' \<or>
           data item = Some []"
  shows "transfer_items libs (before @ item # rest) s = transfer_items libs (before @ rest) s"
proof (induction before arbitrary: s)
  case Nil
  from assms show ?case by auto
next
  case (Cons a before)
  then show ?case by (simp split: prod.splits sum.splits)
qed

lemma uploadBinaries_skip:
  assumes "str_includes (filename item) ''meta-data/'' \<or> endsWith (filename item) ''.zip'' \<or>
           data item = Some []"
  shows "uploadBinaries libs (fw\<lparr>fw_items := before @ item # rest\<rparr>) pit_bytes s =
         uploadBinaries libs (fw\<lparr>fw_items := before @ rest\<rparr>) pit_bytes s"
proof -
  have m: "\<And>P. transfer_items libs (map (match_item P) before @ match_item P item #
                                       map (match_item P) rest) =
                transfer_items libs (map (match_item P) before @ map (match_item P) rest)"
    using assms by (intro ext transfer_items_skip) (simp add: match_item_name_data)
  have d: "transfer_items libs (map detect_from_filename before @ detect_from_filename item #
                                map detect_from_filename rest) =
           transfer_items libs (map detect_from_filename before @ map detect_from_filename rest)"
    using assms by (intro ext transfer_items_skip) (simp add: detect_from_filename_name_data)
  show ?thesis
    by (simp add: uploadBinaries_def m d split: option.splits sum.splits pit_error.splits)
qed

lemma last_pit_body_Cons:
  "last_pit_body (item # items) before =
     last_pit_body items (if is_pit_item item then data item else before)"
  by (simp add: last_pit_body_def split: list.splits)

lemma parseTARData_loop_items:
  assumes "parseTARData_loop tarData offset fw0 = Some fw1"
  shows "\<exists>new. fw_items fw1 = fw_items fw0 @ new \<and>
               list_all (\<lambda>i. data i \<noteq> None) new \<and>
               fw_pitData fw1 = last_pit_body new (fw_pitData fw0)"
  using assms
proof (induction rule: parseTARData_loop.raw_induct[rotated 1, consumes 1])
  case (1 loop tarData offset fw0 fw1)
  note IH = 1(1) and eq = 1(2)
  have base: "\<exists>new. fw_items fw0 = fw_items fw0 @ new \<and> list_all (\<lambda>i. data i \<noteq> None) new \<and>
                    fw_pitData fw0 = last_pit_body new (fw_pitData fw0)"
    by (rule exI[of _ "[]"]) (simp add: last_pit_body_def)
  show ?case
  proof (cases "offset < int (length tarData) \<and> \<not> int (length tarData) < offset + 512 \<and>
                \<not> list_all (\<lambda>i. i < length (js_slice tarData offset (offset + 512)) \<and>
                                js_slice tarData offset (offset + 512) ! i = 0) [0..<512]")
    case False
    with eq have "fw1 = fw0" by (auto simp: Let_def split: if_splits)
    with base show ?thesis by simp
  next
    case True
    let ?header = "js_slice tarData offset (offset + 512)"
    let ?name = "trim (readString ?header 0 100)"
    show ?thesis
    proof (cases "parseInt8 (trim (readString ?header 124 12))")
      case None
      with True eq have "loop tarData (offset + 512) fw0 = Some fw1" by (simp add: Let_def)
      from IH[OF this] show ?thesis .
    next
      case (Some tarSize)
      show ?thesis
      proof (cases "?name = []")
        case True
        with \<open>offset < int (length tarData) \<and> _\<close> Some eq
        have "loop tarData (offset + 512) fw0 = Some fw1" by (simp add: Let_def)
        from IH[OF this] show ?thesis .
      next
        case False
        let ?fileData = "js_slice tarData (offset + 512) (offset + 512 + tarSize)"
        let ?item = "tar_item ?name ?fileData"
        let ?fwa = "if endsWith (toLowerCase ?name) ''.pit''
                    then fw0\<lparr>fw_pitData := Some ?fileData\<rparr> else fw0"
        let ?fwb = "?fwa\<lparr>fw_items := fw_items ?fwa @ [?item]\<rparr>"
        from True Some False eq
        have "loop tarData (offset + 512 + - (- tarSize div 512) * 512) ?fwb = Some fw1"
          by (simp add: Let_def)
        from IH[OF this] obtain new where new:
          "fw_items fw1 = fw_items ?fwb @ new" "list_all (\<lambda>i. data i \<noteq> None) new"
          "fw_pitData fw1 = last_pit_body new (fw_pitData ?fwb)"
          by blast
        have it: "data ?item = Some ?fileData" "filename ?item = ?name"
          by (simp_all add: tar_item_def Let_def)
        have "fw_items fw1 = fw_items fw0 @ (?item # new)" using new(1) by simp
        moreover have "list_all (\<lambda>i. data i \<noteq> None) (?item # new)" using new(2) it by simp
        moreover have "fw_pitData fw1 = last_pit_body (?item # new) (fw_pitData fw0)"
          using new(3) it by (simp add: last_pit_body_Cons is_pit_item_def)
        ultimately show ?thesis by blast
      qed
    qed
  qed
qed


subsection \<open>The members of an archive that stays in its file\<close>

lemma parseSingleTarFile_loop_items:
  "\<exists>new. fw_items (snd (parseSingleTarFile_loop tarFile tarEndOffset currentOffset filesFound fw0)) =
           fw_items fw0 @ new \<and>
         list_all (\<lambda>i. data i = None \<and> isLargeFile (info i)) new \<and>
         fw_pitData (snd (parseSingleTarFile_loop tarFile tarEndOffset currentOffset filesFound fw0)) =
           fw_pitData fw0"
proof (induction tarFile tarEndOffset currentOffset filesFound fw0
       rule: parseSingleTarFile_loop.induct)
  case (1 tarFile tarEndOffset currentOffset filesFound fw0)
  let ?loop = "parseSingleTarFile_loop tarFile tarEndOffset"
  let ?header = "blob_slice tarFile currentOffset (currentOffset + 512)"
  let ?name = "trim (readString ?header 0 100)"
  have base: "\<exists>new. fw_items fw0 = fw_items fw0 @ new \<and>
                    list_all (\<lambda>i. data i = None \<and> isLargeFile (info i)) new \<and>
                    fw_pitData fw0 = fw_pitData fw0"
    by (rule exI[of _ "[]"]) simp
  show ?case
  proof (cases "currentOffset < tarEndOffset \<and> filesFound < 1000 \<and>
                \<not> currentOffset + 512 > length tarFile \<and>
                \<not> list_all (\<lambda>i. i < length ?header \<and> ?header ! i = 0) [0..<512]")
    case False
    then have "?loop currentOffset filesFound fw0 = (filesFound, fw0)"
      by (subst parseSingleTarFile_loop.simps) (auto simp: Let_def)
    with base show ?thesis by simp
  next
    case True
    then have c: "currentOffset < tarEndOffset \<and> filesFound < 1000"
      "\<not> length tarFile < currentOffset + 512"
      "\<not> list_all (\<lambda>i. i < length ?header \<and> ?header ! i = 0) [0..<512]"
      by simp_all
    show ?thesis
    proof (cases "parseInt8 (trim (readString ?header 124 12))")
      case None
      with True have "?loop currentOffset filesFound fw0 = ?loop (currentOffset + 512) filesFound fw0"
        by (subst parseSingleTarFile_loop.simps) (simp add: Let_def)
      with "1.IH"(1)[OF c(1,2) refl c(3) refl refl None] show ?thesis by simp
    next
      case (Some tarSize)
      show ?thesis
      proof (cases "?name = [] \<or> tarSize < 0")
        case skip: True
        with True Some
        have "?loop currentOffset filesFound fw0 = ?loop (currentOffset + 512) filesFound fw0"
          by (subst parseSingleTarFile_loop.simps) (simp add: Let_def)
        with "1.IH"(2)[OF c(1,2) refl c(3) refl refl Some skip] show ?thesis by simp
      next
        case False
        let ?item = "file_item ?name tarFile (currentOffset + 512) (nat tarSize)"
        let ?fw1 = "fw0\<lparr>fw_items := fw_items fw0 @ [?item]\<rparr>"
        let ?next = "currentOffset + 512 + nat (- ((- tarSize) div 512) * 512)"
        from True Some False
        have eq: "?loop currentOffset filesFound fw0 = ?loop ?next (filesFound + 1) ?fw1"
          by (subst parseSingleTarFile_loop.simps) (simp add: Let_def)
        from "1.IH"(3)[OF c(1,2) refl c(3) refl refl Some False refl refl refl refl]
        obtain new where new:
          "fw_items (snd (?loop ?next (filesFound + 1) ?fw1)) = fw_items ?fw1 @ new"
          "list_all (\<lambda>i. data i = None \<and> isLargeFile (info i)) new"
          "fw_pitData (snd (?loop ?next (filesFound + 1) ?fw1)) = fw_pitData ?fw1"
          by blast
        have it: "data ?item = None" "isLargeFile (info ?item)"
          by (simp_all add: file_item_def Let_def)
        show ?thesis
          unfolding eq using new it by (intro exI[of _ "?item # new"]) simp
      qed
    qed
  qed
qed

subsection \<open>The members that are not passed over\<close>

lemma transfer_items_head:
  assumes "\<not> passed_over item"
  shows "transfer_items libs (item # others) s =
           (case transferFile libs item s of
              (Inl e, s') \<Rightarrow> (Inl e, s')
            | (Inr success, s') \<Rightarrow>
                if \<not> success then (Inl (Error ''Failed to transfer''), s')
                else transfer_items libs others s')"
  using assms by (auto simp: passed_over_def)

lemma passed_over_match_item: "passed_over (match_item P item) = passed_over item"
  by (simp add: passed_over_def match_item_name_data)

lemma passed_over_detect_from_filename: "passed_over (detect_from_filename item) = passed_over item"
  by (simp add: passed_over_def detect_from_filename_name_data)

lemma uploadBinaries_head_no_pit:
  assumes "\<not> passed_over member"
  shows "uploadBinaries libs (fw\<lparr>fw_items := member # others\<rparr>) None s =
           (case transferFile libs (detect_from_filename member) s of
              (Inl e, s') \<Rightarrow> (Inl e, s')
            | (Inr success, s') \<Rightarrow>
                if \<not> success then (Inl (Error ''Failed to transfer''), s')
                else uploadBinaries libs (fw\<lparr>fw_items := others\<rparr>) None s')"
proof -
  from assms have "\<not> passed_over (detect_from_filename member)"
    by (simp add: passed_over_detect_from_filename)
  note h = transfer_items_head[OF this, of libs "map detect_from_filename others" s]
  show ?thesis
    by (simp add: uploadBinaries_def io_bind_def h del: transfer_items.simps
          split: prod.splits sum.splits)
qed

lemma uploadBinaries_head_pit:
  assumes "\<not> passed_over member" and "parse bytes = Inr pit"
  shows "uploadBinaries libs (fw\<lparr>fw_items := member # others\<rparr>) (Some bytes) s =
           (case transferFile libs (match_item (entries pit) member) s of
              (Inl e, s') \<Rightarrow> (Inl e, s')
            | (Inr success, s') \<Rightarrow>
                if \<not> success then (Inl (Error ''Failed to transfer''), s')
                else uploadBinaries libs (fw\<lparr>fw_items := others\<rparr>) (Some bytes) s')"
proof -
  from assms have "\<not> passed_over (match_item (entries pit) member)"
    by (simp add: passed_over_match_item)
  note h = transfer_items_head[OF this, of libs "map (match_item (entries pit)) others" s]
  show ?thesis
    by (simp add: uploadBinaries_def io_bind_def h assms(2) del: transfer_items.simps
          split: prod.splits sum.splits)
qed

lemma transferFile_in_memory:
  assumes "data member = Some body" and "\<not> is_compressed (info member)"
  shows "transferFile libs member =
           transfer_sequences member (Some body) (length body) (devType_of member)
             (partId_of member)"
  using assms by (simp add: transferFile_def locate_data_def handle_compression_def Let_def)

subsection \<open>Uploads to a device that acknowledges everything\<close>

lemma ack_device_simps:
  "endpointOut ack_device \<noteq> None" "endpointIn ack_device \<noteq> None"
  "on_transferOut ack_device = (\<lambda>n. WrittenAll)"
  "on_transferIn ack_device = (\<lambda>n. Data (structPack ''<II'' [102, 0]))"
  "sent ack_device = []" "requested ack_device = []"
  by (simp_all add: ack_device_def scripted_simps)

text \<open>A member of no bytes: the activation and nothing else.\<close>

lemma no_block_upload:
  "transfer_sequences item dat 0 devType partId ack_device =
     (Inr True,
      ack_device\<lparr>sent := [frame (structPack ''<III'' [102, 0, 0])], requested := [64]\<rparr>)"
  by (simp add: transfer_sequences_def activate_transfer_def send_sequences.simps
        io_bind_def io_return_def io_throw_def send_command_eq usb_write_acked
        usb_read_connected ack_device_simps Let_def structUnpack_II_def
        LEToNumber_structPack_II_0 LEToNumber_structPack_II_4 length_frame)

text \<open>
  A member of the three bytes 1, 2, 3: the activation, one sequence with one data block,
  which \<open>write\<close> hands over in two chunks, and the finalizer of the last sequence.
\<close>

lemma one_block_upload:
  assumes "read_block item dat 0 0 3 = Inr [1, 2, 3]"
  shows "transfer_sequences item dat 3 devType partId ack_device =
     (Inr True,
      ack_device\<lparr>sent :=
        [frame (structPack ''<III'' [102, 0, 0]), frame (structPack ''<III'' [102, 2, 3]),
         take 65536 (pad_block [1, 2, 3]), drop 65536 (pad_block [1, 2, 3]), [],
         frame (structPack ''<II'' [102, 3] @
                structPack ''<IIIIII'' [0, 3, 0, devType, partId, 1]), []],
        requested := [64, 64, 64, 64]\<rparr>)"
  by (simp add: transfer_sequences_def activate_transfer_def send_sequences.simps
        send_sequence_def begin_sequence_def send_blocks.simps send_block_def assms
        finalize_sequence_def finalize_buffer_frame empty_transfer_eq length_pad_block
        io_bind_def io_return_def io_throw_def io_catch_def send_command_eq usb_write_acked
        usb_write_block_acked usb_read_connected ack_device_simps Let_def structUnpack_II_def
        LEToNumber_structPack_II_0 LEToNumber_structPack_II_4 MAX_CHUNK_SIZE_def
        fileTransferPacketSize_def packetSize_def u8_slice_def length_frame)

lemma uploadBinaries_no_items:
  "uploadBinaries libs (fw\<lparr>fw_items := []\<rparr>) None s = (Inr True, s)"
  by (simp add: uploadBinaries_def io_bind_def io_return_def)

subsection \<open>The examples\<close>

lemma tar_item_name_data:
  "filename (tar_item name body) = name" "data (tar_item name body) = Some body"
  by (simp_all add: tar_item_def Let_def)

lemma pit_tar_parsed:
  "parseTARData pit_tar empty_firmware =
     Some \<lparr> fw_items = [tar_item ''x.pit'' [1, 2, 3]], fw_pitData = Some [1, 2, 3],
            fw_md5Hash = None \<rparr>"
  by code_simp

lemma pit_item_facts:
  "is_pit_item (tar_item ''x.pit'' [1, 2, 3])"
  "\<not> passed_over (tar_item ''x.pit'' [1, 2, 3])"
  "\<not> is_compressed (info (tar_item ''x.pit'' [1, 2, 3]))"
  "\<not> is_compressed (info (detect_from_filename (tar_item ''x.pit'' [1, 2, 3])))"
  "devType_of (detect_from_filename (tar_item ''x.pit'' [1, 2, 3])) = 2"
  "partId_of (detect_from_filename (tar_item ''x.pit'' [1, 2, 3])) = 0"
  "\<not> is_compressed (info (match_item (entries x_pit_table) (tar_item ''x.pit'' [1, 2, 3])))"
  "devType_of (match_item (entries x_pit_table) (tar_item ''x.pit'' [1, 2, 3])) = 2"
  "partId_of (match_item (entries x_pit_table) (tar_item ''x.pit'' [1, 2, 3])) = 7"
  "devType_of (tar_item ''x.pit'' [1, 2, 3]) = 2"
  "partId_of (tar_item ''x.pit'' [1, 2, 3]) = 0"
  by code_simp+

lemma three_bytes: "length [1, 2, 3 :: u8] = 3"
  by simp

lemma read_block_in_memory: "read_block item (Some [1, 2, 3]) 0 0 3 = Inr [1, 2, 3]"
  by (simp add: read_block_def u8_slice_def)

lemma pit_tar_file_parsed:
  "parseSingleTarFile pit_tar 1024 empty_firmware =
     (1, \<lparr> fw_items = [file_item ''x.pit'' pit_tar 512 3], fw_pitData = None,
           fw_md5Hash = None \<rparr>)"
  by code_simp

lemma pit_file_item_facts:
  "is_pit_item (file_item ''x.pit'' pit_tar 512 3)"
  "\<not> passed_over (file_item ''x.pit'' pit_tar 512 3)"
  "locate_data (detect_from_filename (file_item ''x.pit'' pit_tar 512 3)) = Inr (None, 3)"
  "handle_compression no_libraries (detect_from_filename (file_item ''x.pit'' pit_tar 512 3))
     None 3 = Inr (None, 3, False)"
  "read_block (detect_from_filename (file_item ''x.pit'' pit_tar 512 3)) None 0 0 3 =
     Inr [1, 2, 3]"
  "devType_of (detect_from_filename (file_item ''x.pit'' pit_tar 512 3)) = 2"
  "partId_of (detect_from_filename (file_item ''x.pit'' pit_tar 512 3)) = 0"
  by code_simp+

lemma empty_member_tar_parsed:
  "parseSingleTarFile empty_member_tar 512 empty_firmware =
     (1, \<lparr> fw_items = [file_item ''e.img'' empty_member_tar 512 0], fw_pitData = None,
           fw_md5Hash = None \<rparr>)"
  by code_simp

lemma empty_member_facts:
  "actualSize (info (file_item ''e.img'' empty_member_tar 512 0)) = 0"
  "\<not> passed_over (file_item ''e.img'' empty_member_tar 512 0)"
  "locate_data (detect_from_filename (file_item ''e.img'' empty_member_tar 512 0)) =
     Inr (None, 0)"
  "handle_compression no_libraries
     (detect_from_filename (file_item ''e.img'' empty_member_tar 512 0)) None 0 =
     Inr (None, 0, False)"
  by code_simp+

lemma wf_x_pit_table: "wf_pit x_pit_table"
  by (simp add: x_pit_table_def named_entry_def example_entry_def wf_pit_def wf_entry_def
        wf_string_def ascii_string_def is_u32_def PIT_MAGIC_def)

lemma x_pit_table_parsed: "parse (the (serialize x_pit_table)) = Inr x_pit_table"
  using serialize_props[OF wf_x_pit_table] by (metis option.sel)

text \<open>
  C6, as stated, fails in three ways. The archive with the single member \<open>x.pit\<close> of
  three bytes, read by \<open>parseTARData\<close>, gives a firmware whose embedded PIT is the body of
  that member and whose item list holds the member too; uploading that firmware to a device
  that acknowledges everything sends the member as partition content: a sequence of three
  bytes for partition 0, device type 2, with the body in its one data block. The same
  archive read by \<open>parseSingleTarFile\<close> gives a firmware with no embedded PIT, and the
  member is uploaded in the same way. And the member \<open>e.img\<close> of no bytes, read by
  \<open>parseSingleTarFile\<close>, is not skipped: the upload activates a file transfer for it,
  where the upload of a firmware without members hands nothing to the device.
\<close>

theorem pit_member_uploaded_counterexample:
  "parseTARData pit_tar empty_firmware =
     Some \<lparr> fw_items = [tar_item ''x.pit'' [1, 2, 3]], fw_pitData = Some [1, 2, 3],
            fw_md5Hash = None \<rparr> \<and>
   is_pit_item (tar_item ''x.pit'' [1, 2, 3]) \<and>
   uploadBinaries no_libraries
     (empty_firmware\<lparr>fw_items := [tar_item ''x.pit'' [1, 2, 3]],
                     fw_pitData := Some [1, 2, 3]\<rparr>) None ack_device =
     (Inr True,
      ack_device\<lparr>sent :=
        [frame (structPack ''<III'' [102, 0, 0]), frame (structPack ''<III'' [102, 2, 3]),
         take 65536 (pad_block [1, 2, 3]), drop 65536 (pad_block [1, 2, 3]), [],
         frame (structPack ''<II'' [102, 3] @ structPack ''<IIIIII'' [0, 3, 0, 2, 0, 1]), []],
        requested := [64, 64, 64, 64]\<rparr>) \<and>
   parseSingleTarFile pit_tar 1024 empty_firmware =
     (1, \<lparr> fw_items = [file_item ''x.pit'' pit_tar 512 3], fw_pitData = None,
           fw_md5Hash = None \<rparr>) \<and>
   is_pit_item (file_item ''x.pit'' pit_tar 512 3) \<and>
   uploadBinaries no_libraries
     (empty_firmware\<lparr>fw_items := [file_item ''x.pit'' pit_tar 512 3]\<rparr>) None ack_device =
     (Inr True,
      ack_device\<lparr>sent :=
        [frame (structPack ''<III'' [102, 0, 0]), frame (structPack ''<III'' [102, 2, 3]),
         take 65536 (pad_block [1, 2, 3]), drop 65536 (pad_block [1, 2, 3]), [],
         frame (structPack ''<II'' [102, 3] @ structPack ''<IIIIII'' [0, 3, 0, 2, 0, 1]), []],
        requested := [64, 64, 64, 64]\<rparr>) \<and>
   parseSingleTarFile empty_member_tar 512 empty_firmware =
     (1, \<lparr> fw_items = [file_item ''e.img'' empty_member_tar 512 0], fw_pitData = None,
           fw_md5Hash = None \<rparr>) \<and>
   actualSize (info (file_item ''e.img'' empty_member_tar 512 0)) = 0 \<and>
   uploadBinaries no_libraries
     (empty_firmware\<lparr>fw_items := [file_item ''e.img'' empty_member_tar 512 0]\<rparr>) None
     ack_device =
     (Inr True,
      ack_device\<lparr>sent := [frame (structPack ''<III'' [102, 0, 0])], requested := [64]\<rparr>) \<and>
   uploadBinaries no_libraries (empty_firmware\<lparr>fw_items := []\<rparr>) None ack_device =
     (Inr True, ack_device)"
proof -
  let ?wire = "ack_device\<lparr>sent :=
        [frame (structPack ''<III'' [102, 0, 0]), frame (structPack ''<III'' [102, 2, 3]),
         take 65536 (pad_block [1, 2, 3]), drop 65536 (pad_block [1, 2, 3]), [],
         frame (structPack ''<II'' [102, 3] @ structPack ''<IIIIII'' [0, 3, 0, 2, 0, 1]), []],
        requested := [64, 64, 64, 64]\<rparr>"
  have a: "uploadBinaries no_libraries
     (empty_firmware\<lparr>fw_items := [tar_item ''x.pit'' [1, 2, 3]],
                     fw_pitData := Some [1, 2, 3]\<rparr>) None ack_device = (Inr True, ?wire)"
  proof -
    let ?member = "detect_from_filename (tar_item ''x.pit'' [1, 2, 3])"
    have tf: "transferFile no_libraries ?member =
                transfer_sequences ?member (Some [1, 2, 3]) (length [1, 2, 3 :: u8])
                  (devType_of ?member) (partId_of ?member)"
      by (rule transferFile_in_memory)
         (simp_all add: detect_from_filename_name_data tar_item_name_data pit_item_facts(4))
    have "transferFile no_libraries ?member ack_device = (Inr True, ?wire)"
      unfolding tf three_bytes pit_item_facts(5,6)
      by (rule one_block_upload[OF read_block_in_memory])
    then show ?thesis
      by (simp add: uploadBinaries_def io_bind_def io_return_def transfer_items_head
            passed_over_detect_from_filename pit_item_facts(2) del: transfer_items.simps(2))
  qed
  have b: "uploadBinaries no_libraries
     (empty_firmware\<lparr>fw_items := [file_item ''x.pit'' pit_tar 512 3]\<rparr>) None ack_device =
     (Inr True, ?wire)"
  proof -
    have "transferFile no_libraries (detect_from_filename (file_item ''x.pit'' pit_tar 512 3))
            ack_device = (Inr True, ?wire)"
      by (simp add: transferFile_def pit_file_item_facts(3,4,6,7)
            one_block_upload[OF pit_file_item_facts(5)])
    then show ?thesis
      by (simp add: uploadBinaries_def io_bind_def io_return_def transfer_items_head
            passed_over_detect_from_filename pit_file_item_facts(2) del: transfer_items.simps(2))
  qed
  have c: "uploadBinaries no_libraries
     (empty_firmware\<lparr>fw_items := [file_item ''e.img'' empty_member_tar 512 0]\<rparr>) None
     ack_device =
     (Inr True,
      ack_device\<lparr>sent := [frame (structPack ''<III'' [102, 0, 0])], requested := [64]\<rparr>)"
  proof -
    have "transferFile no_libraries
            (detect_from_filename (file_item ''e.img'' empty_member_tar 512 0)) ack_device =
          (Inr True,
           ack_device\<lparr>sent := [frame (structPack ''<III'' [102, 0, 0])], requested := [64]\<rparr>)"
      by (simp add: transferFile_def empty_member_facts(3,4) no_block_upload)
    then show ?thesis
      by (simp add: uploadBinaries_def io_bind_def io_return_def transfer_items_head
            passed_over_detect_from_filename empty_member_facts(2) del: transfer_items.simps(2))
  qed
  show ?thesis
    using pit_tar_parsed pit_item_facts(1) a pit_tar_file_parsed pit_file_item_facts(1) b
      empty_member_tar_parsed empty_member_facts(1) c
      uploadBinaries_no_items[of no_libraries empty_firmware ack_device]
    by (intro conjI)
qed

text \<open>
  C6, amended. For every loaded firmware, a member whose name contains \<open>meta-data/\<close> or
  ends in \<open>.zip\<close>, and a member that is in memory with a body of length zero, is skipped
  without error: the upload runs as it does without that member. A member whose name ends
  in \<open>.pit\<close>, in any case of the letters, becomes the embedded PIT of the firmware that
  \<open>parseTARData\<close> fills, the last such member of the archive winning, and it stays in
  the list of members, as every member does; every member \<open>parseTARData\<close> adds is in
  memory. \<open>parseSingleTarFile\<close> adds members that stay in the file and never changes the
  embedded PIT. The uploader has no test for PIT file names: every member that does not
  meet one of its four tests (neither data nor a file, data of length zero, \<open>meta-data/\<close>,
  \<open>.zip\<close>), one with a PIT file name and one of no bytes that stays in the file included,
  is handed to \<open>transferFile\<close>, after the PIT match or, without a PIT, the detection from
  the file name has set its partition id and device type; and when \<open>transferFile\<close> has
  returned true the upload goes on with the members that follow. For a member in memory
  that is not compressed, \<open>transferFile\<close> is the transfer of its bytes in sequences for
  the device type and the partition id of the member, 2 and 0 when they are not set.
\<close>

theorem upload_skip_policy:
  "(str_includes (filename item) ''meta-data/'' \<or> endsWith (filename item) ''.zip'' \<or>
    data item = Some [] \<longrightarrow>
      uploadBinaries libs (fw\<lparr>fw_items := before @ item # rest\<rparr>) pit_bytes s =
      uploadBinaries libs (fw\<lparr>fw_items := before @ rest\<rparr>) pit_bytes s) \<and>
   (parseTARData tarData fw0 = Some fw1 \<longrightarrow>
      take (length (fw_items fw0)) (fw_items fw1) = fw_items fw0 \<and>
      list_all (\<lambda>i. data i \<noteq> None) (drop (length (fw_items fw0)) (fw_items fw1)) \<and>
      fw_pitData fw1 =
        last_pit_body (drop (length (fw_items fw0)) (fw_items fw1)) (fw_pitData fw0)) \<and>
   take (length (fw_items fw0)) (fw_items (snd (parseSingleTarFile tarFile tarEndOffset fw0))) =
     fw_items fw0 \<and>
   list_all (\<lambda>i. data i = None \<and> isLargeFile (info i))
     (drop (length (fw_items fw0)) (fw_items (snd (parseSingleTarFile tarFile tarEndOffset fw0)))) \<and>
   fw_pitData (snd (parseSingleTarFile tarFile tarEndOffset fw0)) = fw_pitData fw0 \<and>
   (\<not> passed_over member \<longrightarrow>
      uploadBinaries libs (fw\<lparr>fw_items := member # others\<rparr>) None s =
        (case transferFile libs (detect_from_filename member) s of
           (Inl e, s') \<Rightarrow> (Inl e, s')
         | (Inr success, s') \<Rightarrow>
             if \<not> success then (Inl (Error ''Failed to transfer''), s')
             else uploadBinaries libs (fw\<lparr>fw_items := others\<rparr>) None s')) \<and>
   (\<not> passed_over member \<and> parse bytes = Inr pit \<longrightarrow>
      uploadBinaries libs (fw\<lparr>fw_items := member # others\<rparr>) (Some bytes) s =
        (case transferFile libs (match_item (entries pit) member) s of
           (Inl e, s') \<Rightarrow> (Inl e, s')
         | (Inr success, s') \<Rightarrow>
             if \<not> success then (Inl (Error ''Failed to transfer''), s')
             else uploadBinaries libs (fw\<lparr>fw_items := others\<rparr>) (Some bytes) s')) \<and>
   (data member = Some body \<and> \<not> is_compressed (info member) \<longrightarrow>
      transferFile libs member =
        transfer_sequences member (Some body) (length body) (devType_of member)
          (partId_of member))"
proof (intro conjI impI)
  assume "str_includes (filename item) ''meta-data/'' \<or> endsWith (filename item) ''.zip'' \<or>
          data item = Some []"
  then show "uploadBinaries libs (fw\<lparr>fw_items := before @ item # rest\<rparr>) pit_bytes s =
             uploadBinaries libs (fw\<lparr>fw_items := before @ rest\<rparr>) pit_bytes s"
    by (rule uploadBinaries_skip)
next
  assume "parseTARData tarData fw0 = Some fw1"
  then obtain new where new: "fw_items fw1 = fw_items fw0 @ new"
    "list_all (\<lambda>i. data i \<noteq> None) new"
    "fw_pitData fw1 = last_pit_body new (fw_pitData fw0)"
    unfolding parseTARData_def by (blast dest: parseTARData_loop_items)
  then show "take (length (fw_items fw0)) (fw_items fw1) = fw_items fw0"
    "list_all (\<lambda>i. data i \<noteq> None) (drop (length (fw_items fw0)) (fw_items fw1))"
    "fw_pitData fw1 =
       last_pit_body (drop (length (fw_items fw0)) (fw_items fw1)) (fw_pitData fw0)"
    by simp_all
next
  let ?fw = "snd (parseSingleTarFile tarFile tarEndOffset fw0)"
  from parseSingleTarFile_loop_items[of tarFile tarEndOffset 0 0 fw0]
  obtain new where new: "fw_items ?fw = fw_items fw0 @ new"
    "list_all (\<lambda>i. data i = None \<and> isLargeFile (info i)) new"
    "fw_pitData ?fw = fw_pitData fw0"
    unfolding parseSingleTarFile_def by blast
  then show "take (length (fw_items fw0)) (fw_items ?fw) = fw_items fw0"
    "list_all (\<lambda>i. data i = None \<and> isLargeFile (info i))
       (drop (length (fw_items fw0)) (fw_items ?fw))"
    "fw_pitData ?fw = fw_pitData fw0"
    by simp_all
next
  assume "\<not> passed_over member"
  then show "uploadBinaries libs (fw\<lparr>fw_items := member # others\<rparr>) None s =
        (case transferFile libs (detect_from_filename member) s of
           (Inl e, s') \<Rightarrow> (Inl e, s')
         | (Inr success, s') \<Rightarrow>
             if \<not> success then (Inl (Error ''Failed to transfer''), s')
             else uploadBinaries libs (fw\<lparr>fw_items := others\<rparr>) None s')"
    by (rule uploadBinaries_head_no_pit)
next
  assume "\<not> passed_over member \<and> parse bytes = Inr pit"
  then show "uploadBinaries libs (fw\<lparr>fw_items := member # others\<rparr>) (Some bytes) s =
        (case transferFile libs (match_item (entries pit) member) s of
           (Inl e, s') \<Rightarrow> (Inl e, s')
         | (Inr success, s') \<Rightarrow>
             if \<not> success then (Inl (Error ''Failed to transfer''), s')
             else uploadBinaries libs (fw\<lparr>fw_items := others\<rparr>) (Some bytes) s')"
    by (intro uploadBinaries_head_pit) simp_all
next
  assume "data member = Some body \<and> \<not> is_compressed (info member)"
  then show "transferFile libs member =
        transfer_sequences member (Some body) (length body) (devType_of member)
          (partId_of member)"
    by (intro transferFile_in_memory) simp_all
qed

text \<open>
  A firmware with \<open>boot.img\<close> and \<open>meta-data/fota.zip\<close> is uploaded as the firmware with
  \<open>boot.img\<close> alone. The archive with the member \<open>x.pit\<close>: read by \<open>parseTARData\<close>,
  its body is the embedded PIT and the member is an item; read by \<open>parseSingleTarFile\<close>,
  there is no embedded PIT. With a PIT whose entry for partition 7 has the flash file name
  \<open>x.pit\<close>, the member \<open>x.pit\<close> is uploaded to partition 7.
\<close>

theorem upload_skip_policy_witness:
  "str_includes (filename (plain_item ''meta-data/fota.zip'' [1])) ''meta-data/'' \<and>
   uploadBinaries no_libraries
     (empty_firmware\<lparr>fw_items := [plain_item ''boot.img'' [1]] @
                                   plain_item ''meta-data/fota.zip'' [1] # []\<rparr>)
     None ack_device =
   uploadBinaries no_libraries
     (empty_firmware\<lparr>fw_items := [plain_item ''boot.img'' [1]] @ []\<rparr>) None ack_device \<and>
   parseTARData pit_tar empty_firmware =
     Some \<lparr> fw_items = [tar_item ''x.pit'' [1, 2, 3]], fw_pitData = Some [1, 2, 3],
            fw_md5Hash = None \<rparr> \<and>
   last_pit_body [tar_item ''x.pit'' [1, 2, 3]] None = Some [1, 2, 3] \<and>
   fw_pitData (snd (parseSingleTarFile pit_tar 1024 empty_firmware)) = None \<and>
   \<not> passed_over (tar_item ''x.pit'' [1, 2, 3]) \<and>
   parse (the (serialize x_pit_table)) = Inr x_pit_table \<and>
   uploadBinaries no_libraries (empty_firmware\<lparr>fw_items := [tar_item ''x.pit'' [1, 2, 3]]\<rparr>)
     (Some (the (serialize x_pit_table))) ack_device =
     (Inr True,
      ack_device\<lparr>sent :=
        [frame (structPack ''<III'' [102, 0, 0]), frame (structPack ''<III'' [102, 2, 3]),
         take 65536 (pad_block [1, 2, 3]), drop 65536 (pad_block [1, 2, 3]), [],
         frame (structPack ''<II'' [102, 3] @ structPack ''<IIIIII'' [0, 3, 0, 2, 7, 1]), []],
        requested := [64, 64, 64, 64]\<rparr>) \<and>
   data (tar_item ''x.pit'' [1, 2, 3]) = Some [1, 2, 3] \<and>
   \<not> is_compressed (info (tar_item ''x.pit'' [1, 2, 3])) \<and>
   transferFile no_libraries (tar_item ''x.pit'' [1, 2, 3]) =
     transfer_sequences (tar_item ''x.pit'' [1, 2, 3]) (Some [1, 2, 3]) 3 2 0"
proof -
  let ?fw = "\<lparr> fw_items = [tar_item ''x.pit'' [1, 2, 3]], fw_pitData = Some [1, 2, 3],
               fw_md5Hash = None \<rparr>"
  let ?member = "tar_item ''x.pit'' [1, 2, 3]"
  let ?matched = "match_item (entries x_pit_table) ?member"
  let ?bytes = "the (serialize x_pit_table)"
  let ?wire = "ack_device\<lparr>sent :=
        [frame (structPack ''<III'' [102, 0, 0]), frame (structPack ''<III'' [102, 2, 3]),
         take 65536 (pad_block [1, 2, 3]), drop 65536 (pad_block [1, 2, 3]), [],
         frame (structPack ''<II'' [102, 3] @ structPack ''<IIIIII'' [0, 3, 0, 2, 7, 1]), []],
        requested := [64, 64, 64, 64]\<rparr>"
  note t = upload_skip_policy[where item = "plain_item ''meta-data/fota.zip'' [1]"
      and libs = no_libraries and fw = empty_firmware and before = "[plain_item ''boot.img'' [1]]"
      and rest = "[]" and pit_bytes = None and s = ack_device and tarData = pit_tar
      and ?fw0.0 = empty_firmware and ?fw1.0 = ?fw and tarFile = pit_tar
      and tarEndOffset = 1024 and member = ?member and others = "[]" and bytes = ?bytes
      and pit = x_pit_table and body = "[1, 2, 3]"]
  note skip = t[THEN conjunct1]
  note tar = t[THEN conjunct2, THEN conjunct1]
  note no_pit = t[THEN conjunct2, THEN conjunct2, THEN conjunct2, THEN conjunct2, THEN conjunct1]
  note with_pit = t[THEN conjunct2, THEN conjunct2, THEN conjunct2, THEN conjunct2,
      THEN conjunct2, THEN conjunct2, THEN conjunct1]
  note in_memory = t[THEN conjunct2, THEN conjunct2, THEN conjunct2, THEN conjunct2,
      THEN conjunct2, THEN conjunct2, THEN conjunct2]
  have a: "str_includes (filename (plain_item ''meta-data/fota.zip'' [1])) ''meta-data/''"
    by code_simp
  have c: "fw_items empty_firmware = []" "fw_pitData empty_firmware = None"
    by (simp_all add: empty_firmware_def)
  have w1: "uploadBinaries no_libraries
     (empty_firmware\<lparr>fw_items := [plain_item ''boot.img'' [1]] @
                                   plain_item ''meta-data/fota.zip'' [1] # []\<rparr>)
     None ack_device =
   uploadBinaries no_libraries
     (empty_firmware\<lparr>fw_items := [plain_item ''boot.img'' [1]] @ []\<rparr>) None ack_device"
    using skip a by blast
  have w2: "last_pit_body [tar_item ''x.pit'' [1, 2, 3]] None = Some [1, 2, 3]"
    using tar pit_tar_parsed c by simp
  have w3: "fw_pitData (snd (parseSingleTarFile pit_tar 1024 empty_firmware)) = None"
    using no_pit c by simp
  have d: "data ?member = Some [1, 2, 3]" by (simp add: tar_item_name_data)
  have tf: "transferFile no_libraries ?matched =
              transfer_sequences ?matched (Some [1, 2, 3]) (length [1, 2, 3 :: u8])
                (devType_of ?matched) (partId_of ?matched)"
    by (rule transferFile_in_memory)
       (simp_all add: match_item_name_data tar_item_name_data pit_item_facts(7))
  have up: "transferFile no_libraries ?matched ack_device = (Inr True, ?wire)"
    unfolding tf three_bytes pit_item_facts(8,9)
    by (rule one_block_upload[OF read_block_in_memory])
  have fin: "uploadBinaries no_libraries (empty_firmware\<lparr>fw_items := []\<rparr>) (Some ?bytes) ?wire =
                (Inr True, ?wire)"
    by (simp add: uploadBinaries_def x_pit_table_parsed io_bind_def io_return_def)
  have w4: "uploadBinaries no_libraries (empty_firmware\<lparr>fw_items := [?member]\<rparr>)
              (Some ?bytes) ack_device = (Inr True, ?wire)"
    using with_pit pit_item_facts(2) x_pit_table_parsed up fin by simp
  have w5: "transferFile no_libraries ?member =
              transfer_sequences ?member (Some [1, 2, 3]) 3 2 0"
    using in_memory d pit_item_facts(3,10,11) by (simp add: eval_nat_numeral)
  show ?thesis
    using a w1 pit_tar_parsed w2 w3 pit_item_facts(2) x_pit_table_parsed w4 d
      pit_item_facts(3) w5
    by (intro conjI)
qed

section \<open>Every command frame has 1024 bytes\<close>

lemma structPack_III:
  "structPack ''<III'' [a, b, c] = numberToLE a 4 @ numberToLE b 4 @ numberToLE c 4"
  by (simp add: structPack_def Let_def)

lemma structPack_II:
  "structPack ''<II'' [a, b] = numberToLE a 4 @ numberToLE b 4"
  by (simp add: structPack_def Let_def)

lemma structPack_IIIIII:
  "structPack ''<IIIIII'' [a, b, c, d, e, f] =
     numberToLE a 4 @ numberToLE b 4 @ numberToLE c 4 @ numberToLE d 4 @ numberToLE e 4 @
     numberToLE f 4"
  by (simp add: structPack_def Let_def)

lemma LEToNumber_field:
  "length pre = off \<Longrightarrow> LEToNumber (pre @ numberToLE v 4 @ post) off 4 = v mod 2 ^ 32"
proof -
  assume "length pre = off"
  then have "LEToNumber (pre @ numberToLE v 4 @ post) off 4 = LEToNumber (numberToLE v 4) 0 4"
    by (intro LEToNumber_cong) (auto simp: byte_at_def nth_append)
  then show ?thesis by (simp add: le4)
qed

lemma LEToNumber_field0: "LEToNumber (numberToLE v 4 @ post) 0 4 = v mod 2 ^ 32"
  using LEToNumber_field[of "[]" 0 v post] by simp

lemma LEToNumber_field4:
  "LEToNumber (numberToLE u 4 @ numberToLE v 4 @ post) 4 4 = v mod 2 ^ 32"
  using LEToNumber_field[of "numberToLE u 4" 4 v post] by simp

lemma command_frame_III:
  assumes "cmd \<in> {100, 101, 102, 103}"
  shows "command_frame (frame (structPack ''<III'' [cmd, sub, arg]))"
proof -
  let ?w = "frame (structPack ''<III'' [cmd, sub, arg])"
  have w: "?w = numberToLE cmd 4 @ numberToLE sub 4 @ numberToLE arg 4 @ replicate 1012 0"
    by (simp add: frame_def structPack_III)
  have c: "LEToNumber ?w 0 4 = cmd" unfolding w using assms by (auto simp: LEToNumber_field0)
  have d12: "drop 12 ?w = replicate 1012 0" unfolding w by simp
  have d16: "drop 16 ?w = replicate 1008 0" unfolding w by simp
  have d32: "drop 32 ?w = replicate 992 0" unfolding w by simp
  show ?thesis
    unfolding command_frame_def Let_def c using assms d12 d16 d32
    by (auto simp: packetSize_def length_frame)
qed

lemma command_frame_finalizer:
  "command_frame (frame (structPack ''<II'' [102, 3] @ structPack ''<IIIIII'' [a, b, c, d, e, f]))"
proof -
  let ?w = "frame (structPack ''<II'' [102, 3] @ structPack ''<IIIIII'' [a, b, c, d, e, f])"
  have w: "?w = numberToLE 102 4 @ numberToLE 3 4 @ numberToLE a 4 @ numberToLE b 4 @
                numberToLE c 4 @ numberToLE d 4 @ numberToLE e 4 @ numberToLE f 4 @
                replicate 992 0"
    by (simp add: frame_def structPack_II structPack_IIIIII)
  have c: "LEToNumber ?w 0 4 = 102" unfolding w by (simp add: LEToNumber_field0)
  have s: "LEToNumber ?w 4 4 = 3" unfolding w by (simp add: LEToNumber_field4)
  have d32: "drop 32 ?w = replicate 992 0" unfolding w by simp
  show ?thesis
    unfolding command_frame_def Let_def c s using d32
    by (simp add: packetSize_def length_frame)
qed

text \<open>The session total is a command frame: 16 bytes of fields and 1008 zeros.\<close>

lemma structPack_Q:
  "structPack ''<Q'' [v] =
     numberToLE (sint (word_of_int v AND 0xFFFFFFFF :: 32 word)) 4 @
     numberToLE (v div 0x100000000) 4"
  by (simp add: structPack_def Let_def)

lemma session_buffer_frame:
  "session_buffer totalBytes s =
     (Inr (frame (structPack ''<II'' [100, 2] @ structPack ''<Q'' [totalBytes])), s)"
proof -
  let ?a = "structPack ''<II'' [100, 2]"
  let ?b = "structPack ''<Q'' [totalBytes]"
  have la: "length ?a = 8" by (simp add: structPack_II)
  have lb: "length ?b = 8" by (simp add: structPack_Q)
  have 1: "u8_set (replicate 1024 0) ?a 0 = Some (?a @ replicate 1016 0)"
    by (simp add: u8_set_def la)
  have 2: "u8_set (?a @ replicate 1016 0) ?b 8 = Some (?a @ ?b @ replicate 1008 0)"
    by (simp add: u8_set_def la lb)
  show ?thesis
    by (simp add: session_buffer_def 1 2 io_return_def frame_def la lb)
qed

lemma command_frame_session:
  "command_frame (frame (structPack ''<II'' [100, 2] @ structPack ''<Q'' [totalBytes]))"
proof -
  let ?w = "frame (structPack ''<II'' [100, 2] @ structPack ''<Q'' [totalBytes])"
  have w: "?w = numberToLE 100 4 @ numberToLE 2 4 @
                numberToLE (sint (word_of_int totalBytes AND 0xFFFFFFFF :: 32 word)) 4 @
                numberToLE (totalBytes div 0x100000000) 4 @ replicate 1008 0"
    by (simp add: frame_def structPack_II structPack_Q)
  have c: "LEToNumber ?w 0 4 = 100" unfolding w by (simp add: LEToNumber_field0)
  have sb: "LEToNumber ?w 4 4 = 2" unfolding w by (simp add: LEToNumber_field4)
  have d16: "drop 16 ?w = replicate 1008 0" unfolding w by simp
  have l: "length ?w = 1024" unfolding w by simp
  show ?thesis
    unfolding command_frame_def Let_def c sb using d16 l
    by (simp add: packetSize_def)
qed

subsection \<open>Composing operations\<close>

lemma extends_ok_iff:
  "extends_ok D s s' \<longleftrightarrow>
     (\<exists>ws. sent s' = sent s @ ws \<and> list_all (\<lambda>w. wire_ok w \<or> w \<in> set D) ws)"
proof
  assume "extends_ok D s s'"
  then have "sent s' = sent s @ drop (length (sent s)) (sent s')"
    and "list_all (\<lambda>w. wire_ok w \<or> w \<in> set D) (drop (length (sent s)) (sent s'))"
    unfolding extends_ok_def by (metis append_take_drop_id, simp)
  then show "\<exists>ws. sent s' = sent s @ ws \<and> list_all (\<lambda>w. wire_ok w \<or> w \<in> set D) ws"
    by blast
next
  assume "\<exists>ws. sent s' = sent s @ ws \<and> list_all (\<lambda>w. wire_ok w \<or> w \<in> set D) ws"
  then show "extends_ok D s s'" by (auto simp: extends_ok_def)
qed

lemma extends_ok_refl: "extends_ok D s s"
  by (simp add: extends_ok_def)

lemma extends_ok_same: "sent s' = sent s \<Longrightarrow> extends_ok D s s'"
  by (simp add: extends_ok_def)

lemma extends_ok_trans: "extends_ok D s s' \<Longrightarrow> extends_ok D s' s'' \<Longrightarrow> extends_ok D s s''"
  unfolding extends_ok_iff by auto

lemma sends_ok_return: "sends_ok D (io_return x) s"
  by (simp add: sends_ok_def io_return_def extends_ok_refl)

lemma sends_ok_throw: "sends_ok D (io_throw e) s"
  by (simp add: sends_ok_def io_throw_def extends_ok_refl)

lemma sends_ok_bind:
  assumes "sends_ok D m s" and "\<And>x s'. sends_ok D (f x) s'"
  shows "sends_ok D (io_bind m f) s"
proof (cases "m s")
  case (Pair r s')
  show ?thesis
  proof (cases r)
    case (Inl e)
    with Pair assms(1) show ?thesis by (simp add: sends_ok_def io_bind_def)
  next
    case (Inr x)
    from assms(1) Pair have "extends_ok D s s'" by (simp add: sends_ok_def)
    moreover from assms(2)[of x s'] have "extends_ok D s' (snd (f x s'))" by (simp add: sends_ok_def)
    ultimately show ?thesis using Pair Inr
      by (simp add: sends_ok_def io_bind_def extends_ok_trans)
  qed
qed

lemma sends_ok_catch:
  assumes "sends_ok D m s" and "\<And>e s'. sends_ok D (h e) s'"
  shows "sends_ok D (io_catch m h) s"
proof (cases "m s")
  case (Pair r s')
  show ?thesis
  proof (cases r)
    case (Inr x)
    with Pair assms(1) show ?thesis by (simp add: sends_ok_def io_catch_def)
  next
    case (Inl e)
    from assms(1) Pair have "extends_ok D s s'" by (simp add: sends_ok_def)
    moreover from assms(2)[of e s'] have "extends_ok D s' (snd (h e s'))" by (simp add: sends_ok_def)
    ultimately show ?thesis using Pair Inl
      by (simp add: sends_ok_def io_catch_def extends_ok_trans)
  qed
qed

text \<open>A loop turn sent with \<open>case\<close>: the step, then the rest of the loop.\<close>

lemma sends_ok_step:
  assumes "sends_ok D m s"
    and "\<And>x s'. m s = (Inr x, s') \<Longrightarrow> extends_ok D s' (snd (k x s'))"
  shows "extends_ok D s (snd (case m s of (Inl e, s') \<Rightarrow> (Inl e, s') | (Inr x, s') \<Rightarrow> k x s'))"
proof (cases "m s")
  case (Pair r s')
  then have e: "extends_ok D s s'" using assms(1) by (simp add: sends_ok_def)
  show ?thesis
  proof (cases r)
    case (Inl e)
    with Pair \<open>extends_ok D s s'\<close> show ?thesis by simp
  next
    case (Inr x)
    with Pair assms(2)[of x s'] e show ?thesis by (simp add: extends_ok_trans)
  qed
qed

lemma extends_ok_mono: "extends_ok [] s s' \<Longrightarrow> extends_ok D s s'"
  unfolding extends_ok_iff by (auto simp: list_all_iff)

lemma sends_ok_mono: "sends_ok [] operation s \<Longrightarrow> sends_ok D operation s"
  by (simp add: sends_ok_def extends_ok_mono)

text \<open>
  \<open>write\<close> hands data of at most 65536 bytes to the device as it is, and cuts longer data
  into chunks of 65536 bytes and what is left.
\<close>

lemma sends_ok_write:
  "wire_ok w \<or> w \<in> set D \<Longrightarrow> length w \<le> 65536 \<Longrightarrow> sends_ok D (usb_write w) s"
  by (simp add: sends_ok_def usb_write_small_state extends_ok_def)

lemma transferOut_state: "snd (transferOut chunk s) = s\<lparr>sent := sent s @ [chunk]\<rparr>"
  by (simp add: transferOut_def Let_def split: out_outcome.splits)

lemma extends_ok_write_chunks:
  assumes "65536 dvd offset"
  shows "extends_ok [drop (65536 * (length bytes div 65536)) bytes] s
           (snd (write_chunks bytes offset totalWritten s))"
  using assms
proof (induction bytes offset totalWritten s rule: write_chunks.induct)
  case (1 bytes offset totalWritten s)
  let ?D = "[drop (65536 * (length bytes div 65536)) bytes]"
  let ?chunkEnd = "min (offset + 65536) (length bytes)"
  let ?chunk = "u8_slice bytes offset ?chunkEnd"
  show ?case
  proof (cases "offset < length bytes")
    case False
    then show ?thesis by (subst write_chunks.simps) (simp add: extends_ok_refl)
  next
    case True
    from "1.prems" obtain q where q: "offset = 65536 * q" by (auto simp: dvd_def)
    have ok: "wire_ok ?chunk \<or> ?chunk \<in> set ?D"
    proof (cases "offset + 65536 \<le> length bytes")
      case True
      then have "length ?chunk = 65536" by (simp add: u8_slice_def)
      then show ?thesis by (simp add: wire_ok_def)
    next
      case False
      with \<open>offset < length bytes\<close> q have "length bytes div 65536 = q" by simp
      moreover from False have "?chunk = drop offset bytes" by (simp add: u8_slice_def)
      ultimately show ?thesis using q by simp
    qed
    obtain r s1 where t: "transferOut ?chunk s = (r, s1)" by (cases "transferOut ?chunk s")
    from t transferOut_state[of ?chunk s] have s1: "s1 = s\<lparr>sent := sent s @ [?chunk]\<rparr>"
      by simp
    have e1: "extends_ok ?D s s1" using ok s1 by (simp add: extends_ok_def)
    show ?thesis
    proof (cases r)
      case (Inl e)
      with True t e1 show ?thesis by (subst write_chunks.simps) (simp add: Let_def)
    next
      case (Inr bytesWritten)
      show ?thesis
      proof (cases "bytesWritten \<noteq> length ?chunk")
        case True
        with \<open>offset < length bytes\<close> t Inr e1 show ?thesis
          by (subst write_chunks.simps) (simp add: Let_def)
      next
        case False
        show ?thesis
        proof (cases "offset + 65536 \<le> length bytes")
          case le: True
          then have ce: "?chunkEnd = offset + 65536" by simp
          have "65536 dvd ?chunkEnd" unfolding ce using "1.prems" by simp
          from "1.IH"[OF True refl refl t[symmetric] Inr False this]
          have "extends_ok ?D s1 (snd (write_chunks bytes ?chunkEnd (totalWritten + bytesWritten) s1))" .
          from extends_ok_trans[OF e1 this] True t Inr False show ?thesis
            by (subst write_chunks.simps) (simp add: Let_def)
        next
          case gt: False
          then have ce: "?chunkEnd = length bytes" by simp
          have "write_chunks bytes (length bytes) (totalWritten + bytesWritten) s1 =
                  (Inr (totalWritten + bytesWritten), s1)"
            by (subst write_chunks.simps) simp
          with True t Inr False e1 ce show ?thesis
            by (subst write_chunks.simps) (simp add: Let_def)
        qed
      qed
    qed
  qed
qed

lemma sends_ok_write_data:
  "sends_ok [drop (65536 * (length bytes div 65536)) bytes] (usb_write bytes) s"
proof (cases "endpointOut s")
  case None
  then show ?thesis by (simp add: sends_ok_def usb_write_unconnected extends_ok_refl)
next
  case (Some endpoint)
  show ?thesis
  proof (cases "length bytes > 65536")
    case True
    have "snd (usb_write bytes s) = snd (write_chunks bytes 0 0 s)"
      using Some True
      by (simp add: usb_write_def io_catch_def io_throw_def split: prod.splits sum.splits)
    then show ?thesis using extends_ok_write_chunks[of 0 bytes s 0] by (simp add: sends_ok_def)
  next
    case le: False
    show ?thesis
    proof (cases "length bytes = 65536")
      case True
      then show ?thesis by (intro sends_ok_write) (simp_all add: wire_ok_def)
    next
      case False
      with le have "length bytes div 65536 = 0" by simp
      then show ?thesis using le by (intro sends_ok_write) simp_all
    qed
  qed
qed

lemma sends_ok_write_block:
  assumes "length block = fileTransferPacketSize"
  shows "sends_ok D (usb_write block) s"
proof -
  have "drop (65536 * (length block div 65536)) block = []"
    using assms by (simp add: fileTransferPacketSize_def)
  with sends_ok_write_data[of block s] have "sends_ok [[]] (usb_write block) s" by simp
  then show ?thesis
    unfolding sends_ok_def extends_ok_iff by (auto simp: wire_ok_def list_all_iff)
qed

lemma sends_ok_read: "sends_ok D (usb_read n t) s"
  by (simp add: sends_ok_def usb_read_state extends_ok_def)

lemma sends_ok_empty_transfer: "sends_ok D empty_transfer s"
  by (simp add: sends_ok_def empty_transfer_eq extends_ok_def wire_ok_def)

lemma sends_ok_frame: "command_frame w \<Longrightarrow> sends_ok D (usb_write w) s"
  by (rule sends_ok_write) (simp_all add: wire_ok_def command_frame_def packetSize_def)

lemma sends_ok_send_command:
  "cmd \<in> {100, 101, 102, 103} \<Longrightarrow>
   sends_ok D (send_command (structPack ''<III'' [cmd, sub, arg])) s"
  using sends_ok_frame[of "frame (structPack ''<III'' [cmd, sub, arg])" D s]
  by (simp add: sends_ok_def send_command_eq command_frame_III)

lemma sends_ok_finalizer:
  "sends_ok D (io_bind (finalize_buffer n devType partId status) (\<lambda>buf.
     io_bind empty_transfer (\<lambda>_.
     io_bind (usb_write (u8_slice buf 0 packetSize)) (\<lambda>_.
     io_bind empty_transfer k)))) s"
  if "\<And>x s'. sends_ok D (k x) s'"
proof -
  let ?f = "frame (structPack ''<II'' [102, 3] @
                   structPack ''<IIIIII'' [0, int n, 0, devType, partId, status])"
  have l: "length ?f = 1024" by (simp add: length_frame)
  have "command_frame ?f" by (rule command_frame_finalizer)
  then have "sends_ok D (io_bind empty_transfer (\<lambda>_.
     io_bind (usb_write ?f) (\<lambda>_. io_bind empty_transfer k))) s"
    by (intro sends_ok_bind sends_ok_empty_transfer sends_ok_frame that)
  then show ?thesis
    by (simp add: sends_ok_def io_bind_def[of "finalize_buffer n devType partId status"]
          finalize_buffer_frame u8_slice_def packetSize_def l)
qed

subsection \<open>The operations of the engine\<close>

lemma sends_ok_request_pit_chunk: "sends_ok D (request_pit_chunk counter remaining) s"
  unfolding request_pit_chunk_def
  by (intro sends_ok_bind sends_ok_send_command sends_ok_read) simp

lemma sends_ok_receive_pit_chunks: "sends_ok D (receive_pit_chunks pitData counter remaining) s"
proof (induction pitData counter remaining s rule: receive_pit_chunks.induct)
  case (1 pitData counter remaining s)
  show ?case
  proof (cases "remaining > 0")
    case False
    then show ?thesis
      by (subst receive_pit_chunks.simps) (simp add: sends_ok_def extends_ok_refl)
  next
    case True
    have "extends_ok D s (snd (case request_pit_chunk counter remaining s of
              (Inl e, s') \<Rightarrow> (Inl e, s')
            | (Inr chunk, s') \<Rightarrow>
                if length chunk = 0 then (Inr (pitData, counter, remaining), s')
                else receive_pit_chunks (pitData @ [chunk]) (counter + 1)
                       (remaining - int (length chunk)) s'))"
    proof (rule sends_ok_step[OF sends_ok_request_pit_chunk])
      fix chunk s'
      assume r: "request_pit_chunk counter remaining s = (Inr chunk, s')"
      show "extends_ok D s' (snd (if length chunk = 0 then (Inr (pitData, counter, remaining), s')
                else receive_pit_chunks (pitData @ [chunk]) (counter + 1)
                       (remaining - int (length chunk)) s'))"
      proof (cases "length chunk = 0")
        case True
        then show ?thesis by (simp add: extends_ok_refl)
      next
        case False
        from 1[OF True r[symmetric] refl False] False show ?thesis by (simp add: sends_ok_def)
      qed
    qed
    with True show ?thesis by (subst receive_pit_chunks.simps) (simp add: sends_ok_def)
  qed
qed

lemma sends_ok_receivePitData: "sends_ok D receivePitData s"
  unfolding receivePitData_def read_pit_size_reply_def Let_def
  by (intro sends_ok_bind sends_ok_send_command sends_ok_read)
     (auto simp: sends_ok_throw sends_ok_return sends_ok_read split: prod.splits
           intro!: sends_ok_bind sends_ok_send_command sends_ok_read sends_ok_receive_pit_chunks)

lemma sends_ok_closeConnection: "sends_ok D closeConnection s"
  unfolding closeConnection_def
  by (intro sends_ok_catch sends_ok_bind sends_ok_send_command sends_ok_read sends_ok_return) simp

lemma sends_ok_rebootDevice: "sends_ok D rebootDevice s"
  unfolding rebootDevice_def
  by (intro sends_ok_catch sends_ok_bind sends_ok_send_command sends_ok_return) simp

lemma sends_ok_activate_transfer: "sends_ok D activate_transfer s"
  unfolding activate_transfer_def Let_def
  by (intro sends_ok_bind sends_ok_send_command sends_ok_read)
     (auto simp: sends_ok_throw sends_ok_return split: prod.splits)

lemma sends_ok_begin_sequence: "sends_ok D (begin_sequence chunkSize) s"
  unfolding begin_sequence_def Let_def
  by (intro sends_ok_bind sends_ok_send_command sends_ok_read)
     (auto simp: sends_ok_throw sends_ok_return split: prod.splits)

lemma sends_ok_pad_block:
  "length block \<le> fileTransferPacketSize \<Longrightarrow> sends_ok D (usb_write (pad_block block)) s"
  by (rule sends_ok_write_block) (simp add: length_pad_block)

lemma read_block_length:
  "read_block item dat offset chunkOffset blockSize = Inr block \<Longrightarrow> length block \<le> blockSize"
  by (auto simp: read_block_def Let_def u8_slice_def blob_slice_def split: option.splits if_splits)

lemma sends_ok_send_block:
  "length block \<le> fileTransferPacketSize \<Longrightarrow> sends_ok D (send_block block blockCount) s"
  unfolding send_block_def
  by (intro sends_ok_bind sends_ok_pad_block)
     (auto simp: sends_ok_throw sends_ok_return sends_ok_empty_transfer
           intro!: sends_ok_bind sends_ok_read)

lemma sends_ok_send_blocks:
  "sends_ok D (send_blocks item dat offset chunkSize chunkOffset blockCount) s"
proof (induction item dat offset chunkSize chunkOffset blockCount s rule: send_blocks.induct)
  case (1 item dat offset chunkSize chunkOffset blockCount s)
  let ?blockSize = "min fileTransferPacketSize (chunkSize - chunkOffset)"
  show ?case
  proof (cases "chunkOffset < chunkSize")
    case False
    then show ?thesis by (subst send_blocks.simps) (simp add: sends_ok_def extends_ok_refl)
  next
    case True
    show ?thesis
    proof (cases "read_block item dat offset chunkOffset ?blockSize")
      case (Inl e)
      with True show ?thesis
        by (subst send_blocks.simps) (simp add: sends_ok_def extends_ok_refl Let_def)
    next
      case (Inr block)
      from read_block_length[OF Inr] have "length block \<le> fileTransferPacketSize" by simp
      then have "extends_ok D s (snd (case send_block block blockCount s of
                    (Inl e, s') \<Rightarrow> (Inl e, s')
                  | (Inr u, s') \<Rightarrow>
                      send_blocks item dat offset chunkSize (chunkOffset + ?blockSize)
                        (blockCount + 1) s'))"
      proof (intro sends_ok_step sends_ok_send_block)
        fix u s'
        assume "send_block block blockCount s = (Inr u, s')"
        from 1[OF True refl Inr this[symmetric] refl]
        show "extends_ok D s' (snd (send_blocks item dat offset chunkSize
                                    (chunkOffset + ?blockSize) (blockCount + 1) s'))"
          by (simp add: sends_ok_def)
      qed
      with True Inr show ?thesis
        by (subst send_blocks.simps) (simp add: sends_ok_def Let_def)
    qed
  qed
qed

lemma sends_ok_finalize_sequence:
  "sends_ok D (finalize_sequence chunkOffset devType partId completionStatus) s"
  unfolding finalize_sequence_def
  by (rule sends_ok_finalizer)
     (auto simp: sends_ok_throw sends_ok_return Let_def split: prod.splits option.splits
           intro!: sends_ok_bind sends_ok_catch sends_ok_read)

lemma sends_ok_send_sequence:
  "sends_ok D (send_sequence item dat file_size devType partId offset chunkSize) s"
  unfolding send_sequence_def Let_def
  by (intro sends_ok_bind sends_ok_begin_sequence sends_ok_send_blocks)
     (auto simp: sends_ok_finalize_sequence split: prod.splits)

lemma sends_ok_send_sequences:
  "sends_ok D (send_sequences item dat file_size devType partId offset) s"
proof (induction item dat file_size devType partId offset s rule: send_sequences.induct)
  case (1 item dat file_size devType partId offset s)
  let ?chunkSize = "min (file_size - offset) MAX_CHUNK_SIZE"
  show ?case
  proof (cases "offset < file_size")
    case False
    then show ?thesis by (subst send_sequences.simps) (simp add: sends_ok_def extends_ok_refl)
  next
    case True
    have "extends_ok D s (snd (case send_sequence item dat file_size devType partId offset
                                   ?chunkSize s of
              (Inl e, s') \<Rightarrow> (Inl e, s')
            | (Inr u, s') \<Rightarrow>
                send_sequences item dat file_size devType partId (offset + ?chunkSize) s'))"
    proof (intro sends_ok_step sends_ok_send_sequence)
      fix u s'
      assume "send_sequence item dat file_size devType partId offset ?chunkSize s = (Inr u, s')"
      from 1[OF True refl refl this[symmetric] refl]
      show "extends_ok D s' (snd (send_sequences item dat file_size devType partId
                                  (offset + ?chunkSize) s'))"
        by (simp add: sends_ok_def)
    qed
    with True show ?thesis by (subst send_sequences.simps) (simp add: sends_ok_def Let_def)
  qed
qed

lemma sends_ok_transfer_sequences:
  "sends_ok D (transfer_sequences item dat file_size devType partId) s"
  unfolding transfer_sequences_def
  by (intro sends_ok_bind sends_ok_activate_transfer sends_ok_send_sequences sends_ok_return)

lemma sends_ok_flush_blocks: "sends_ok D (flush_blocks buf bufPos offset blockCount) s"
proof (induction buf bufPos offset blockCount s rule: flush_blocks.induct)
  case (1 buf bufPos offset blockCount s)
  let ?blockSize = "min fileTransferPacketSize (bufPos - offset)"
  let ?block = "pad_block (u8_slice buf offset (offset + ?blockSize))"
  let ?turn = "io_bind (if blockCount > 0 then empty_transfer else io_return ()) (\<lambda>_.
                 io_bind (usb_write ?block) (\<lambda>_.
                 io_bind (usb_read 64 60) (\<lambda>_. io_return ())))"
  show ?case
  proof (cases "offset < bufPos")
    case False
    then show ?thesis by (subst flush_blocks.simps) (simp add: sends_ok_def extends_ok_refl)
  next
    case True
    have "length (u8_slice buf offset (offset + ?blockSize)) \<le> fileTransferPacketSize"
      by (simp add: u8_slice_def)
    then have t: "sends_ok D ?turn s"
      by (intro sends_ok_bind sends_ok_pad_block sends_ok_read sends_ok_return)
         (simp_all add: sends_ok_empty_transfer sends_ok_return)
    have "extends_ok D s (snd (case ?turn s of
              (Inl e, s') \<Rightarrow> (Inl e, s')
            | (Inr u, s') \<Rightarrow> flush_blocks buf bufPos (offset + ?blockSize) (blockCount + 1) s'))"
    proof (rule sends_ok_step[OF t])
      fix u s'
      assume "?turn s = (Inr u, s')"
      from 1[OF True refl refl this[symmetric] refl]
      show "extends_ok D s' (snd (flush_blocks buf bufPos (offset + ?blockSize)
                                  (blockCount + 1) s'))"
        by (simp add: sends_ok_def)
    qed
    with True show ?thesis by (subst flush_blocks.simps) (simp add: sends_ok_def Let_def)
  qed
qed

lemma sends_ok_flushBuffer: "sends_ok D (flushBuffer devType partId isFinal st) s"
proof (cases "bufferPos st = 0")
  case True
  then show ?thesis by (simp add: flushBuffer_def sends_ok_return)
next
  case False
  have "sends_ok D
     (io_bind (send_command (structPack ''<III'' [102, 2, int (bufferPos st)])) (\<lambda>_.
      io_bind (usb_read 64 60) (\<lambda>_.
      io_bind (flush_blocks (sendBuffer st) (bufferPos st) 0 0) (\<lambda>_.
        io_bind (finalize_buffer (bufferPos st) devType partId (if isFinal then 1 else 0)) (\<lambda>buf.
        io_bind empty_transfer (\<lambda>_.
        io_bind (usb_write (u8_slice buf 0 packetSize)) (\<lambda>_.
        io_bind empty_transfer (\<lambda>_.
        io_bind (usb_read 64 120) (\<lambda>_.
          io_return (st\<lparr>totalSent := totalSent st + bufferPos st, bufferPos := 0,
                          sequenceNum := sequenceNum st + 1\<rparr>)))))))))) s"
    by (intro sends_ok_bind sends_ok_send_command sends_ok_read sends_ok_flush_blocks
          sends_ok_finalizer sends_ok_return) simp
  with False show ?thesis by (simp add: flushBuffer_def Let_def)
qed

lemma sends_ok_append_block:
  "sends_ok D (append_block devType partId decompressedBlock blockOffset st) s"
proof (induction devType partId decompressedBlock blockOffset st s rule: append_block.induct)
  case (1 devType partId decompressedBlock blockOffset st s)
  let ?copySize = "min (SEND_BUFFER_SIZE - bufferPos st) (length decompressedBlock - blockOffset)"
  let ?set = "u8_set (sendBuffer st)
                (u8_slice decompressedBlock blockOffset (blockOffset + ?copySize)) (bufferPos st)"
  show ?case
  proof (cases "blockOffset < length decompressedBlock")
    case False
    then show ?thesis by (subst append_block.simps) (simp add: sends_ok_def extends_ok_refl)
  next
    case True
    show ?thesis
    proof (cases ?set)
      case None
      with True show ?thesis
        by (subst append_block.simps) (simp add: sends_ok_def extends_ok_refl Let_def)
    next
      case (Some buf)
      let ?st1 = "st\<lparr>sendBuffer := buf, bufferPos := bufferPos st + ?copySize\<rparr>"
      show ?thesis
      proof (cases "bufferPos ?st1 \<ge> SEND_BUFFER_SIZE")
        case False
        from True Some False
        have "append_block devType partId decompressedBlock blockOffset st s =
              append_block devType partId decompressedBlock (blockOffset + ?copySize) ?st1 s"
          by (subst append_block.simps) (simp only: Let_def if_True if_False option.case)
        with 1(2)[OF True refl Some refl False] show ?thesis by (simp add: sends_ok_def)
      next
        case full: True
        from True Some full
        have eq: "append_block devType partId decompressedBlock blockOffset st s =
              (case flushBuffer devType partId False ?st1 s of
                  (Inl e, s') \<Rightarrow> (Inl e, s')
                | (Inr st2, s') \<Rightarrow>
                    append_block devType partId decompressedBlock (blockOffset + ?copySize)
                      st2 s')"
          by (subst append_block.simps) (simp only: Let_def if_True if_False option.case)
        have "extends_ok D s (snd (case flushBuffer devType partId False ?st1 s of
                  (Inl e, s') \<Rightarrow> (Inl e, s')
                | (Inr st2, s') \<Rightarrow>
                    append_block devType partId decompressedBlock (blockOffset + ?copySize)
                      st2 s'))"
        proof (intro sends_ok_step sends_ok_flushBuffer)
          fix st2 s'
          assume "flushBuffer devType partId False ?st1 s = (Inr st2, s')"
          from 1(1)[OF True refl Some refl full this[symmetric] refl]
          show "extends_ok D s' (snd (append_block devType partId decompressedBlock
                                      (blockOffset + ?copySize) st2 s'))"
            by (simp add: sends_ok_def)
        qed
        with eq show ?thesis by (simp only: sends_ok_def)
      qed
    qed
  qed
qed

lemma sends_ok_onChunk: "sends_ok D (onChunk devType partId decompressedBlock st) s"
  by (simp add: onChunk_def sends_ok_append_block)

lemma sends_ok_lz4_blocks:
  assumes "\<And>block st s. sends_ok D (chunk block st) s"
  shows "sends_ok D (lz4_blocks tarFile filePos endOffset maxBlockSize blockChecksum chunk
                     tot st) s"
  using assms
proof (induction tarFile filePos endOffset maxBlockSize blockChecksum chunk tot st s
       rule: lz4_blocks.induct)
  case (1 tarFile filePos endOffset maxBlockSize blockChecksum chunk tot st s)
  note sc = 1(2)
  show ?case
  proof (cases "filePos < endOffset")
    case False
    then show ?thesis by (subst lz4_blocks.simps) (simp add: sends_ok_def extends_ok_refl)
  next
    case True
    show ?thesis
    proof (cases "getUint32 (blob_slice tarFile filePos (filePos + 4))")
      case (Inl e)
      with True show ?thesis
        by (subst lz4_blocks.simps) (simp add: sends_ok_def extends_ok_refl)
    next
      case (Inr blockSize)
      let ?isUncompressed = "(word_of_int blockSize :: 32 word) AND 0x80000000 \<noteq> 0"
      let ?actual = "unat ((word_of_int blockSize :: 32 word) AND 0x7FFFFFFF)"
      let ?blockData = "blob_slice tarFile (filePos + 4) (filePos + 4 + ?actual)"
      let ?next = "filePos + 4 + ?actual + (if blockChecksum then 4 else 0)"
      let ?dec = "if ?isUncompressed then Inr ?blockData
                  else decompressBlock ?blockData maxBlockSize"
      show ?thesis
      proof (cases "blockSize = 0 \<or> ?actual > maxBlockSize")
        case True
        with \<open>filePos < endOffset\<close> Inr show ?thesis
          by (subst lz4_blocks.simps) (auto simp: sends_ok_def extends_ok_refl Let_def)
      next
        case False
        then have nz: "blockSize \<noteq> 0" and fits: "\<not> ?actual > maxBlockSize" by auto
        show ?thesis
        proof (cases ?dec)
          case (Inl e)
          with True Inr nz fits show ?thesis
            by (subst lz4_blocks.simps) (simp add: sends_ok_def extends_ok_refl Let_def)
        next
          case dec: (Inr decompressed)
          have "extends_ok D s (snd (case chunk decompressed st s of
                    (Inl e, s') \<Rightarrow> (Inl e, s')
                  | (Inr st', s') \<Rightarrow>
                      lz4_blocks tarFile ?next endOffset maxBlockSize blockChecksum chunk
                        (tot + length decompressed) st' s'))"
          proof (rule sends_ok_step[OF sc])
            fix st' s'
            assume "chunk decompressed st s = (Inr st', s')"
            from 1(1)[OF True Inr nz refl refl fits refl refl dec this[symmetric] refl sc]
            show "extends_ok D s' (snd (lz4_blocks tarFile ?next endOffset maxBlockSize
                                        blockChecksum chunk (tot + length decompressed) st' s'))"
              by (simp add: sends_ok_def)
          qed
          with True Inr nz fits dec show ?thesis
            by (subst lz4_blocks.simps) (simp add: sends_ok_def Let_def)
        qed
      qed
    qed
  qed
qed
lemma sends_ok_decompressStreaming:
  assumes "\<And>block st s. sends_ok D (chunk block st) s"
  shows "sends_ok D (decompressStreaming tarFile offset compressedSize chunk st) s"
  unfolding decompressStreaming_def Let_def
  by (auto simp: sends_ok_throw split: sum.splits intro!: sends_ok_lz4_blocks assms)

lemma sends_ok_decompress_and_flush: "sends_ok D (decompress_and_flush item partId devType) s"
  unfolding decompress_and_flush_def
  by (intro sends_ok_bind sends_ok_decompressStreaming sends_ok_onChunk)
     (auto simp: sends_ok_flushBuffer sends_ok_return split: prod.splits)

lemma sends_ok_transferFileStreamingLZ4:
  "sends_ok D (transferFileStreamingLZ4 item partId devType) s"
  unfolding transferFileStreamingLZ4_def
  by (intro sends_ok_bind sends_ok_catch sends_ok_activate_transfer
        sends_ok_decompress_and_flush sends_ok_throw sends_ok_return)

lemma sends_ok_transferFile: "sends_ok D (transferFile libs item) s"
  unfolding transferFile_def Let_def
  by (auto simp: sends_ok_throw sends_ok_transferFileStreamingLZ4 sends_ok_transfer_sequences
           split: sum.splits prod.splits)

lemma sends_ok_transfer_items: "sends_ok D (transfer_items libs items) s"
proof (induction items arbitrary: s)
  case Nil
  show ?case by (simp add: sends_ok_def extends_ok_refl)
next
  case (Cons item rest)
  have "extends_ok D s (snd (case transferFile libs item s of
            (Inl e, s') \<Rightarrow> (Inl e, s')
          | (Inr success, s') \<Rightarrow>
              if \<not> success then (Inl (Error ''Failed to transfer''), s')
              else transfer_items libs rest s'))"
  proof (intro sends_ok_step sends_ok_transferFile)
    fix success s'
    show "extends_ok D s' (snd (if \<not> success then (Inl (Error ''Failed to transfer''), s')
                              else transfer_items libs rest s'))"
      using Cons[of s'] by (simp add: sends_ok_def extends_ok_refl)
  qed
  with Cons[of s] show ?case by (simp add: sends_ok_def)
qed

lemma sends_ok_uploadBinaries: "sends_ok D (uploadBinaries libs firmwareData pit_bytes) s"
  unfolding uploadBinaries_def
  by (auto simp: sends_ok_throw sends_ok_return split: option.splits sum.splits pit_error.splits
           intro!: sends_ok_bind sends_ok_transfer_items)

subsection \<open>The operations of the flasher\<close>

lemma sends_ok_weaken:
  assumes "sends_ok D operation s" and "\<And>w. w \<in> set D \<Longrightarrow> wire_ok w \<or> w \<in> set D'"
  shows "sends_ok D' operation s"
  using assms unfolding sends_ok_def extends_ok_iff by (fastforce simp: list_all_iff)

lemma sends_ok_get_protocol_version: "sends_ok D get_protocol_version s"
  unfolding get_protocol_version_def Let_def
  by (intro sends_ok_bind sends_ok_send_command sends_ok_read)
     (auto simp: sends_ok_throw sends_ok_return split: prod.splits)

lemma sends_ok_send_file_part_size: "sends_ok D send_file_part_size s"
  unfolding send_file_part_size_def Let_def
  by (intro sends_ok_bind sends_ok_send_command sends_ok_read)
     (auto simp: sends_ok_throw sends_ok_return split: prod.splits)

lemma sends_ok_begin_session: "sends_ok D (begin_session totalBytes) s"
proof -
  let ?f = "frame (structPack ''<II'' [100, 2] @ structPack ''<Q'' [totalBytes])"
  have l: "length ?f = 1024" using command_frame_session[of totalBytes]
    by (simp add: command_frame_def packetSize_def)
  have "sends_ok D (io_bind (usb_write ?f) (\<lambda>_.
     io_bind (usb_read 64 TIMEOUT_TRANSFER) (\<lambda>resp.
       if length resp < 8 then io_throw (Error ''No response to 100/2 packet'')
       else let (respCmd, respData) = structUnpack_II resp
            in if respCmd \<noteq> 100 \<or> respData \<noteq> 0
               then io_throw (Error ''Device rejected 100/2'')
               else io_return ()))) s"
    by (intro sends_ok_bind sends_ok_frame command_frame_session sends_ok_read)
       (auto simp: sends_ok_throw sends_ok_return Let_def split: prod.splits)
  then show ?thesis
    by (simp add: begin_session_def sends_ok_def io_bind_def[of "session_buffer totalBytes"]
          session_buffer_frame u8_slice_def packetSize_def l)
qed

lemma sends_ok_handshake: "sends_ok [[79, 68, 73, 78]] handshake s"
  unfolding handshake_def encode_ODIN
  by (intro sends_ok_catch sends_ok_bind sends_ok_write)
     (auto simp: sends_ok_return intro!: sends_ok_bind sends_ok_read)

lemma sends_ok_connectDevice: "sends_ok [[79, 68, 73, 78]] connectDevice s"
  unfolding connectDevice_def
  by (intro sends_ok_bind sends_ok_handshake)
     (auto simp: sends_ok_throw sends_ok_return sends_ok_send_file_part_size split: prod.splits
           intro!: sends_ok_bind sends_ok_get_protocol_version)

text \<open>
  The pieces of a PIT: every piece but the last has 1 MiB, which \<open>write\<close> cuts into
  sixteen chunks of 65536 bytes; what is left of the last piece after its chunks of 65536
  bytes is what is left of the PIT.
\<close>

lemma sends_ok_pit_piece:
  assumes "0x100000 dvd offset" and "offset < length pitData"
  shows "sends_ok [pit_tail pitData]
           (usb_write (u8_slice pitData offset (min (offset + 0x100000) (length pitData)))) s"
proof -
  let ?piece = "u8_slice pitData offset (min (offset + 0x100000) (length pitData))"
  let ?tail = "drop (65536 * (length ?piece div 65536)) ?piece"
  have "?tail = [] \<or> ?tail = pit_tail pitData"
  proof (cases "offset + 0x100000 \<le> length pitData")
    case True
    then have "length ?piece = 0x100000" by (simp add: u8_slice_def)
    then show ?thesis by simp
  next
    case False
    from assms(1) obtain q where q: "offset = 65536 * (16 * q)" by (auto simp: dvd_def)
    from False assms(2) have p: "?piece = drop offset pitData" by (simp add: u8_slice_def)
    have "length pitData = offset + (length pitData - offset)" using assms(2) by simp
    then have "length pitData div 65536 = 16 * q + (length pitData - offset) div 65536"
      unfolding q by (metis div_mult_self2 add.commute zero_neq_numeral)
    then have "pit_tail pitData =
                 drop (65536 * ((length pitData - offset) div 65536)) (drop offset pitData)"
      unfolding pit_tail_def using q by (simp add: add_mult_distrib2 add.commute)
    then show ?thesis using p by simp
  qed
  with sends_ok_write_data[of ?piece s] show ?thesis
    by (auto elim!: sends_ok_weaken simp: wire_ok_def)
qed

lemma sends_ok_send_pit_pieces:
  assumes "0x100000 dvd offset"
  shows "sends_ok [pit_tail pitData] (send_pit_pieces pitData offset) s"
  using assms
proof (induction pitData offset s rule: send_pit_pieces.induct)
  case (1 pitData offset s)
  let ?pieceEnd = "min (offset + 0x100000) (length pitData)"
  let ?piece = "u8_slice pitData offset ?pieceEnd"
  show ?case
  proof (cases "offset < length pitData")
    case False
    then show ?thesis by (subst send_pit_pieces.simps) (simp add: sends_ok_def extends_ok_refl)
  next
    case True
    have "extends_ok [pit_tail pitData] s (snd (case usb_write ?piece s of
              (Inl e, s') \<Rightarrow> (Inl e, s')
            | (Inr n, s') \<Rightarrow> send_pit_pieces pitData ?pieceEnd s'))"
    proof (rule sends_ok_step[OF sends_ok_pit_piece[OF "1.prems" True]])
      fix n s'
      assume w: "usb_write ?piece s = (Inr n, s')"
      show "extends_ok [pit_tail pitData] s' (snd (send_pit_pieces pitData ?pieceEnd s'))"
      proof (cases "offset + 0x100000 \<le> length pitData")
        case le: True
        then have "0x100000 dvd ?pieceEnd" using "1.prems" by simp
        from "1.IH"[OF True refl refl w[symmetric] refl this] show ?thesis
          by (simp add: sends_ok_def)
      next
        case False
        then have "?pieceEnd = length pitData" by simp
        then show ?thesis
          by (subst send_pit_pieces.simps) (simp add: extends_ok_refl)
      qed
    qed
    with True show ?thesis by (subst send_pit_pieces.simps) (simp add: sends_ok_def Let_def)
  qed
qed

lemma sends_ok_sendPitData: "sends_ok [pit_tail pitData] (sendPitData pitData) s"
  unfolding sendPitData_def Let_def
  by (intro sends_ok_catch sends_ok_bind sends_ok_send_pit_pieces sends_ok_read)
     (auto simp: sends_ok_return split: prod.splits)

lemma pit_tail_Nil [simp]: "pit_tail [] = []"
  by (simp add: pit_tail_def)

lemma sends_ok_send_available_pit:
  "sends_ok [pit_tail (pit_sent pitData firmwareData)] (send_available_pit pitData firmwareData) s"
  unfolding send_available_pit_def pit_sent_def
  by (auto simp: sends_ok_throw sends_ok_return split: option.splits
           intro!: sends_ok_bind sends_ok_sendPitData)

lemma sends_ok_flash:
  "sends_ok [pit_tail (pit_sent pitData firmwareData)]
     (flash libs firmwareData pitData reboot storedVersion) s"
  unfolding flash_def sendPitInfo_def Let_def
  by (intro sends_ok_bind sends_ok_begin_session)
     (auto simp: sends_ok_throw sends_ok_return sends_ok_send_available_pit
           intro!: sends_ok_bind sends_ok_catch sends_ok_receivePitData sends_ok_uploadBinaries
             sends_ok_closeConnection sends_ok_rebootDevice sends_ok_send_available_pit)

text \<open>
  C9: every command frame sent on a session has exactly 1024 bytes, the fields followed by
  zeros. Every command with three fields, whatever its number, sub-command and argument,
  is built in a zeroed 1024-byte buffer of which the first \<open>packetSize\<close> bytes are handed
  to \<open>write\<close>, and so are the finalizer \<open>(102, 3)\<close> and the session total \<open>(100, 2)\<close>
  with their longer fields. And whatever the device answers, and whether the operation
  returns or throws, everything that is handed to the device by the requests for the
  protocol version \<open>(100, 0)\<close> and the file part size \<open>(100, 5)\<close>, the start of the
  session \<open>(100, 2)\<close>, receiving the PIT, transferring a file (in memory, from the archive
  file, or through the streaming decoder), uploading a firmware, closing the session and
  rebooting is an empty transfer, a chunk of 65536 bytes (half a data block), or such a
  command frame with the command number 100, 101, 102 or 103. The same holds for
  \<open>connectDevice\<close> and \<open>flash\<close> as a whole, which beside these send data that is not
  a command: the four bytes of the handshake, and the PIT in chunks of 65536 bytes and
  what is left of it.
\<close>

theorem command_frames_1024:
  "send_command (structPack ''<III'' [cmd, sub, arg]) s =
     usb_write (frame (structPack ''<III'' [cmd, sub, arg])) s \<and>
   length (frame (structPack ''<III'' [cmd, sub, arg])) = 1024 \<and>
   drop 12 (frame (structPack ''<III'' [cmd, sub, arg])) = replicate 1012 0 \<and>
   fst (finalize_buffer actualBytes devType partId completionStatus s) =
     Inr (frame (structPack ''<II'' [102, 3] @
                 structPack ''<IIIIII''
                   [0, int actualBytes, 0, devType, partId, completionStatus])) \<and>
   fst (session_buffer totalBytes s) =
     Inr (frame (structPack ''<II'' [100, 2] @ structPack ''<Q'' [totalBytes])) \<and>
   sends_ok [] get_protocol_version s \<and>
   sends_ok [] send_file_part_size s \<and>
   sends_ok [] (begin_session totalBytes) s \<and>
   sends_ok [] receivePitData s \<and>
   sends_ok [] (transferFile libs item) s \<and>
   sends_ok [] (transferFileStreamingLZ4 item partId devType) s \<and>
   sends_ok [] (uploadBinaries libs firmwareData pit_bytes) s \<and>
   sends_ok [] closeConnection s \<and>
   sends_ok [] rebootDevice s \<and>
   sends_ok [[79, 68, 73, 78]] connectDevice s \<and>
   sends_ok [pit_tail (pit_sent pitData firmwareData)]
     (flash libs firmwareData pitData reboot storedVersion) s"
proof -
  have "drop 12 (frame (structPack ''<III'' [cmd, sub, arg])) = replicate 1012 0"
    by (simp add: frame_def)
  then show ?thesis
    by (simp add: send_command_eq length_frame finalize_buffer_frame session_buffer_frame
          sends_ok_get_protocol_version sends_ok_send_file_part_size sends_ok_begin_session
          sends_ok_receivePitData sends_ok_transferFile
          sends_ok_transferFileStreamingLZ4 sends_ok_uploadBinaries sends_ok_closeConnection
          sends_ok_rebootDevice sends_ok_connectDevice sends_ok_flash)
qed

text \<open>
  A device that accepts the session: the start of a session of three bytes hands one
  frame of 1024 bytes to the device, \<open>(100, 2)\<close> with the total 3, and returns; and the
  request for the protocol version hands over the frame \<open>(100, 0, 4)\<close>.
\<close>

theorem command_frames_1024_witness:
  "fst (begin_session 3 session_device) = Inr () \<and>
   sent (snd (begin_session 3 session_device)) =
     [frame (structPack ''<II'' [100, 2] @ structPack ''<Q'' [3])] \<and>
   length (frame (structPack ''<II'' [100, 2] @ structPack ''<Q'' [3])) = 1024 \<and>
   sends_ok [] (begin_session 3) session_device \<and>
   length (frame (structPack ''<III'' [100, 0, 4])) = 1024 \<and>
   drop 12 (frame (structPack ''<III'' [100, 0, 4])) = replicate 1012 0 \<and>
   send_command (structPack ''<III'' [100, 0, 4]) session_device =
     (Inr 1024, session_device\<lparr>sent := [frame (structPack ''<III'' [100, 0, 4])]\<rparr>)"
proof -
  let ?f = "frame (structPack ''<II'' [100, 2] @ structPack ''<Q'' [3])"
  note t = command_frames_1024[where cmd = 100 and sub = 0 and arg = 4 and s = session_device
      and totalBytes = 3]
  have dev: "endpointOut session_device \<noteq> None" "endpointIn session_device \<noteq> None"
    "on_transferOut session_device = (\<lambda>n. WrittenAll)"
    "on_transferIn session_device = (\<lambda>n. Data (structPack ''<II'' [100, 0]))"
    "sent session_device = []" "requested session_device = []"
    by (simp_all add: session_device_def scripted_simps)
  have l: "length ?f = 1024"
    using command_frame_session[of 3] by (simp add: command_frame_def packetSize_def)
  have b: "begin_session 3 session_device =
             (Inr (), session_device\<lparr>sent := [?f], requested := [64]\<rparr>)"
    by (simp add: begin_session_def io_bind_def io_return_def io_throw_def session_buffer_frame
          u8_slice_def packetSize_def l usb_write_acked usb_read_connected dev Let_def
          structUnpack_II_def LEToNumber_structPack_II_0 LEToNumber_structPack_II_4)
  have w: "usb_write (frame (structPack ''<III'' [100, 0, 4])) session_device =
             (Inr 1024, session_device\<lparr>sent := [frame (structPack ''<III'' [100, 0, 4])]\<rparr>)"
    by (simp add: usb_write_acked dev length_frame)
  from t b l w show ?thesis by simp
qed

end
